theory Spec2Isabelle
  imports Main "HOL-Library.List_Lexorder" "HOL-Library.Char_ord"
begin

section \<open>Strings of the source language\<close>

text \<open>
  A source string is modelled as a \<open>string\<close>, one \<open>char\<close> per code unit, so the texts of
  the model are those whose code units lie below 256 (U+0000 to U+00FF). The character
  classes below are those of the regular expressions of the source (\<open>\d\<close>, \<open>\w\<close>, \<open>\s\<close>,
  \<open>.\<close>) on these code units: \<open>\d\<close> and \<open>\w\<close> take ASCII characters only, \<open>\s\<close> and
  \<open>trim\<close> take the five ASCII controls, the space and the no-break space U+00A0.
\<close>

definition isDigit :: "char \<Rightarrow> bool" where
  "isDigit c = (c \<in> set ''0123456789'')"

definition lowerChars :: string where
  "lowerChars = ''abcdefghijklmnopqrstuvwxyz''"

definition upperChars :: string where
  "upperChars = ''ABCDEFGHIJKLMNOPQRSTUVWXYZ''"

definition isWordChar :: "char \<Rightarrow> bool" where
  "isWordChar c = (c \<in> set lowerChars \<or> c \<in> set upperChars \<or> isDigit c \<or> c = CHR ''_'')"

definition isSpace :: "char \<Rightarrow> bool" where
  "isSpace c = (c \<in> set [CHR 0x09, CHR 0x0A, CHR 0x0B, CHR 0x0C, CHR 0x0D, CHR '' '', CHR 0xA0])"

definition isLineTerminator :: "char \<Rightarrow> bool" where
  "isLineTerminator c = (c = CHR 0x0A \<or> c = CHR 0x0D)"

definition toLowerChar :: "char \<Rightarrow> char" where
  "toLowerChar c = (case map_of (zip upperChars lowerChars) c of Some d \<Rightarrow> d | None \<Rightarrow> c)"

text \<open>
  \<open>toLowerCase\<close> is only ever compared with an ASCII literal (also for the \<open>i\<close> flag of
  a pattern of ASCII letters) or used as a key of \<open>MONTHS\<close> on a \<open>\w+\<close> token, so its
  effect on the letters from U+00C0 on is never observed and is left out. \<open>toUpperCase\<close> makes the texts that are shown, so it follows
  the case mapping of the source on every code unit of the model: the letters
  U+00E0 to U+00FE other than the division sign U+00F7 have their capital 32 places
  below, and the sharp s U+00DF becomes \<open>SS\<close>. The capitals of the micro sign U+00B5 and
  of U+00FF are U+039C and U+0178, which are no code units of the model; those two are
  kept as they are, and a statement on upper case leaves them out.
\<close>

definition lowerLatin1 :: string where
  "lowerLatin1 =
     [CHR 0xE0, CHR 0xE1, CHR 0xE2, CHR 0xE3, CHR 0xE4, CHR 0xE5, CHR 0xE6, CHR 0xE7,
      CHR 0xE8, CHR 0xE9, CHR 0xEA, CHR 0xEB, CHR 0xEC, CHR 0xED, CHR 0xEE, CHR 0xEF,
      CHR 0xF0, CHR 0xF1, CHR 0xF2, CHR 0xF3, CHR 0xF4, CHR 0xF5, CHR 0xF6,
      CHR 0xF8, CHR 0xF9, CHR 0xFA, CHR 0xFB, CHR 0xFC, CHR 0xFD, CHR 0xFE]"

definition upperLatin1 :: string where
  "upperLatin1 =
     [CHR 0xC0, CHR 0xC1, CHR 0xC2, CHR 0xC3, CHR 0xC4, CHR 0xC5, CHR 0xC6, CHR 0xC7,
      CHR 0xC8, CHR 0xC9, CHR 0xCA, CHR 0xCB, CHR 0xCC, CHR 0xCD, CHR 0xCE, CHR 0xCF,
      CHR 0xD0, CHR 0xD1, CHR 0xD2, CHR 0xD3, CHR 0xD4, CHR 0xD5, CHR 0xD6,
      CHR 0xD8, CHR 0xD9, CHR 0xDA, CHR 0xDB, CHR 0xDC, CHR 0xDD, CHR 0xDE]"

definition toUpperChar :: "char \<Rightarrow> string" where
  \<comment> \<open>the upper-case form of one code unit\<close>
  "toUpperChar c =
     (if c = CHR 0xDF then ''SS''
      else case map_of (zip (lowerChars @ lowerLatin1) (upperChars @ upperLatin1)) c of
             Some d \<Rightarrow> [d]
           | None \<Rightarrow> [c])"

definition toUpperCase :: "string \<Rightarrow> string" where
  "toUpperCase s = concat (map toUpperChar s)"

definition toLowerCase :: "string \<Rightarrow> string" where
  "toLowerCase s = map toLowerChar s"

definition trim :: "string \<Rightarrow> string" where
  "trim s = rev (dropWhile isSpace (rev (dropWhile isSpace s)))"

definition padStart2 :: "string \<Rightarrow> string" where
  \<comment> \<open>\<open>s.padStart(2, '0')\<close>\<close>
  "padStart2 s = replicate (2 - length s) CHR ''0'' @ s"

definition startsWithCI :: "string \<Rightarrow> string \<Rightarrow> bool" where
  \<comment> \<open>the lower-case literal \<open>lit\<close> matches at the start of \<open>s\<close> under the \<open>i\<close> flag\<close>
  "startsWithCI lit s = (length lit \<le> length s \<and> toLowerCase (take (length lit) s) = lit)"

section \<open>The date normaliser: \<open>parseDate\<close> of gedcomParser.js\<close>

definition MONTHS :: "(string \<times> string) list" where
  "MONTHS =
    [(''jan'', ''01''), (''feb'', ''02''), (''mar'', ''03''), (''apr'', ''04''), (''may'', ''05''),
     (''jun'', ''06''), (''jul'', ''07''), (''aug'', ''08''), (''sep'', ''09''), (''oct'', ''10''),
     (''nov'', ''11''), (''dec'', ''12''),
     (''january'', ''01''), (''february'', ''02''), (''march'', ''03''), (''april'', ''04''),
     (''june'', ''06''), (''july'', ''07''), (''august'', ''08''), (''september'', ''09''),
     (''october'', ''10''), (''november'', ''11''), (''december'', ''12'')]"

text \<open>
  \<open>MONTHS\<close> is an object literal, so \<open>MONTHS[key]\<close> also finds what the object inherits
  from \<open>Object.prototype\<close>. The key is a lower-cased \<open>\w+\<close> token; the inherited
  properties with such a name are \<open>constructor\<close> and \<open>__proto__\<close>. Both are truthy,
  and the template literal of the source turns them into the texts below.
\<close>

definition MONTHS_inherited :: "(string \<times> string) list" where
  "MONTHS_inherited =
    [(''constructor'', ''function Object() { [native code] }''),
     (''__proto__'', ''[object Object]'')]"

definition monthOf :: "string \<Rightarrow> string option" where
  \<comment> \<open>\<open>MONTHS[token.toLowerCase()]\<close>, \<open>None\<close> for \<open>undefined\<close>\<close>
  "monthOf token = map_of (MONTHS @ MONTHS_inherited) (toLowerCase token)"

text \<open>
  The alternatives of \<open>/^(abt\.?|about|circa|bef\.?|before|aft\.?|after|est\.?|cal\.?)\s*/i\<close>
  in the order of the source; the flag says whether the alternative ends in \<open>\.?\<close>.
\<close>

definition qualifierAlts :: "(string \<times> bool) list" where
  "qualifierAlts =
    [(''abt'', True), (''about'', False), (''circa'', False), (''bef'', True), (''before'', False),
     (''aft'', True), (''after'', False), (''est'', True), (''cal'', True)]"

fun matchAlt :: "string \<times> bool \<Rightarrow> string \<Rightarrow> string option" where
  "matchAlt (lit, optDot) s =
     (if startsWithCI lit s
      then (let r = drop (length lit) s
            in Some (if optDot \<and> r \<noteq> [] \<and> hd r = CHR ''.'' then tl r else r))
      else None)"

fun firstAlt :: "(string \<times> bool) list \<Rightarrow> string \<Rightarrow> string option" where
  "firstAlt [] s = None"
| "firstAlt (a # alts) s = (case matchAlt a s of Some r \<Rightarrow> Some r | None \<Rightarrow> firstAlt alts s)"

definition stripQualifier :: "string \<Rightarrow> string" where
  \<comment> \<open>\<open>dateStr.replace(/^(...)\s*/i, '')\<close>: the first alternative that matches wins, since
      the \<open>\s*\<close> after it never fails\<close>
  "stripQualifier s =
     (case firstAlt qualifierAlts s of None \<Rightarrow> s | Some r \<Rightarrow> dropWhile isSpace r)"

definition isYear :: "string \<Rightarrow> bool" where
  \<comment> \<open>\<open>\d{4}\<close> up to the end of the input\<close>
  "isYear y = (length y = 4 \<and> list_all isDigit y)"

definition matchDash :: "string \<Rightarrow> (string \<times> string \<times> string) option" where
  \<comment> \<open>\<open>/^(\d{1,2})-(\w+)-(\d{4})$/\<close>, the three groups\<close>
  "matchDash s =
     (let d = takeWhile isDigit s; r1 = dropWhile isDigit s
      in if length d = 1 \<or> length d = 2 then
           (case r1 of
              c1 # r2 \<Rightarrow>
                (let w = takeWhile isWordChar r2; r3 = dropWhile isWordChar r2
                 in if c1 = CHR ''-'' \<and> w \<noteq> [] then
                      (case r3 of
                         c2 # y \<Rightarrow> if c2 = CHR ''-'' \<and> isYear y then Some (d, w, y) else None
                       | [] \<Rightarrow> None)
                    else None)
            | [] \<Rightarrow> None)
         else None)"

definition matchDmy :: "string \<Rightarrow> (string \<times> string \<times> string) option" where
  \<comment> \<open>\<open>/^(\d{1,2})\s+(\w+)\s+(\d{4})$/\<close>\<close>
  "matchDmy s =
     (let d = takeWhile isDigit s; r1 = dropWhile isDigit s;
          sp1 = takeWhile isSpace r1; r2 = dropWhile isSpace r1;
          w = takeWhile isWordChar r2; r3 = dropWhile isWordChar r2;
          sp2 = takeWhile isSpace r3; y = dropWhile isSpace r3
      in if (length d = 1 \<or> length d = 2) \<and> sp1 \<noteq> [] \<and> w \<noteq> [] \<and> sp2 \<noteq> [] \<and> isYear y
         then Some (d, w, y) else None)"

definition matchMdy :: "string \<Rightarrow> (string \<times> string \<times> string) option" where
  \<comment> \<open>\<open>/^(\w+)\s+(\d{1,2}),?\s+(\d{4})$/\<close>\<close>
  "matchMdy s =
     (let w = takeWhile isWordChar s; r1 = dropWhile isWordChar s;
          sp1 = takeWhile isSpace r1; r2 = dropWhile isSpace r1;
          d = takeWhile isDigit r2; r3 = dropWhile isDigit r2;
          r4 = (if r3 \<noteq> [] \<and> hd r3 = CHR '','' then tl r3 else r3);
          sp2 = takeWhile isSpace r4; y = dropWhile isSpace r4
      in if w \<noteq> [] \<and> sp1 \<noteq> [] \<and> (length d = 1 \<or> length d = 2) \<and> sp2 \<noteq> [] \<and> isYear y
         then Some (w, d, y) else None)"

definition matchMy :: "string \<Rightarrow> (string \<times> string) option" where
  \<comment> \<open>\<open>/^(\w+)\s+(\d{4})$/\<close>\<close>
  "matchMy s =
     (let w = takeWhile isWordChar s; r1 = dropWhile isWordChar s;
          sp1 = takeWhile isSpace r1; y = dropWhile isSpace r1
      in if w \<noteq> [] \<and> sp1 \<noteq> [] \<and> isYear y then Some (w, y) else None)"

definition fromDash :: "string \<Rightarrow> string option" where
  "fromDash s =
     (case matchDash s of
        Some (d, w, y) \<Rightarrow>
          (case monthOf w of Some m \<Rightarrow> Some (y @ ''-'' @ m @ ''-'' @ padStart2 d) | None \<Rightarrow> None)
      | None \<Rightarrow> None)"

definition fromDmy :: "string \<Rightarrow> string option" where
  "fromDmy s =
     (case matchDmy s of
        Some (d, w, y) \<Rightarrow>
          (case monthOf w of Some m \<Rightarrow> Some (y @ ''-'' @ m @ ''-'' @ padStart2 d) | None \<Rightarrow> None)
      | None \<Rightarrow> None)"

definition fromMdy :: "string \<Rightarrow> string option" where
  "fromMdy s =
     (case matchMdy s of
        Some (w, d, y) \<Rightarrow>
          (case monthOf w of Some m \<Rightarrow> Some (y @ ''-'' @ m @ ''-'' @ padStart2 d) | None \<Rightarrow> None)
      | None \<Rightarrow> None)"

definition fromMy :: "string \<Rightarrow> string option" where
  "fromMy s =
     (case matchMy s of
        Some (w, y) \<Rightarrow>
          (case monthOf w of Some m \<Rightarrow> Some (y @ ''-'' @ m @ ''-01'') | None \<Rightarrow> None)
      | None \<Rightarrow> None)"

definition parseCleaned :: "string \<Rightarrow> string option" where
  \<comment> \<open>the body of \<open>parseDate\<close> from the test of \<open>cleaned\<close> on\<close>
  "parseCleaned cleaned =
     (if cleaned = [] \<or> toLowerCase cleaned = ''unknown'' then None
      else if isYear cleaned then Some (cleaned @ ''-01-01'')
      else case fromDash cleaned of Some r \<Rightarrow> Some r | None \<Rightarrow>
           (case fromDmy cleaned of Some r \<Rightarrow> Some r | None \<Rightarrow>
           (case fromMdy cleaned of Some r \<Rightarrow> Some r | None \<Rightarrow>
           (case fromMy cleaned of Some r \<Rightarrow> Some r | None \<Rightarrow> None))))"

definition parseDate :: "string option \<Rightarrow> string option" where
  \<comment> \<open>\<open>None\<close> is \<open>null\<close>; the empty string is falsy as well\<close>
  "parseDate dateStr =
     (case dateStr of
        None \<Rightarrow> None
      | Some s \<Rightarrow> if s = [] then None else parseCleaned (trim (stripQualifier s)))"

text \<open>The shape of a parsed date: a four-digit year, the text the month lookup gave,
  and a two-digit day.\<close>

abbreviation dateShape :: "string \<Rightarrow> bool" where
  "dateShape r \<equiv> (\<exists>y m d. r = y @ ''-'' @ m @ ''-'' @ d \<and> isYear y
                    \<and> m \<in> snd ` set (MONTHS @ MONTHS_inherited)
                    \<and> length d = 2 \<and> list_all isDigit d)"

section \<open>The record parser: \<open>parseGedcomFull\<close> of gedcomParser.js\<close>

record datePlace =
  date :: "string option"
  place :: "string option"

record individual =
  gedcomId :: string
  givn :: string
  surn :: string
  sex :: "string option"
  birth :: datePlace
  death :: datePlace
  burial :: "string option"

record famRecord =
  gedcomFamId :: string
  husbandId :: "string option"
  wifeId :: "string option"
  childIds :: "string list"

datatype subcontext = CBirth | CDeath | CBurial | CName

record parserState =
  individuals :: "individual list"
  famRecords :: "famRecord list"
  currentIndi :: "individual option"
  currentFam :: "famRecord option"
  currentEvent :: "subcontext option"

fun splitLines :: "string \<Rightarrow> string list" where
  \<comment> \<open>\<open>content.split(/\r?\n/)\<close>\<close>
  "splitLines [] = [[]]"
| "splitLines [c] = (if c = CHR 0x0A then [[], []] else [[c]])"
| "splitLines (c # d # cs) =
     (if c = CHR 0x0A then [] # splitLines (d # cs)
      else if c = CHR 0x0D \<and> d = CHR 0x0A then [] # splitLines cs
      else (case splitLines (d # cs) of l # ls \<Rightarrow> (c # l) # ls | [] \<Rightarrow> [[c]]))"

definition spacesThenSome :: "string \<Rightarrow> string option" where
  \<comment> \<open>\<open>\s+(.+)$\<close>, the group: the greedy \<open>\s+\<close> gives one space back when nothing else
      is left for \<open>.+\<close>, and \<open>.\<close> matches no line terminator\<close>
  "spacesThenSome s =
     (let w = takeWhile isSpace s; r = dropWhile isSpace s
      in if w = [] \<or> list_ex isLineTerminator r then None
         else if r \<noteq> [] then Some r
         else if 2 \<le> length w \<and> \<not> isLineTerminator (last w) then Some [last w]
         else None)"

definition afterTag :: "string \<Rightarrow> string \<Rightarrow> string option" where
  \<comment> \<open>\<open>rest.match(/^TAG\s+(.+)$/)\<close>, the group\<close>
  "afterTag tag rest =
     (if take (length tag) rest = tag then spacesThenSome (drop (length tag) rest) else None)"

definition isXref :: "string \<Rightarrow> bool" where
  \<comment> \<open>\<open>@\S+@\<close> over a whole token\<close>
  "isXref t = (3 \<le> length t \<and> hd t = CHR ''@'' \<and> last t = CHR ''@'' \<and> \<not> list_ex isSpace t)"

definition xrefThen :: "string \<Rightarrow> string \<Rightarrow> string option" where
  \<comment> \<open>\<open>rest.match(/^(@\S+@)\s+KIND$/)\<close>, the group\<close>
  "xrefThen kind rest =
     (let t = takeWhile (\<lambda>c. \<not> isSpace c) rest; r1 = dropWhile (\<lambda>c. \<not> isSpace c) rest;
          sp = takeWhile isSpace r1; r2 = dropWhile isSpace r1
      in if isXref t \<and> sp \<noteq> [] \<and> r2 = kind then Some t else None)"

definition tagXref :: "string \<Rightarrow> string \<Rightarrow> string option" where
  \<comment> \<open>\<open>rest.match(/^TAG\s+(@\S+@)$/)\<close>, the group\<close>
  "tagXref tag rest =
     (let r1 = drop (length tag) rest; sp = takeWhile isSpace r1; t = dropWhile isSpace r1
      in if take (length tag) rest = tag \<and> sp \<noteq> [] \<and> isXref t then Some t else None)"

definition isNameLine :: "string \<Rightarrow> bool" where
  \<comment> \<open>\<open>rest.match(/^NAME\s+(.*)$/)\<close> succeeds\<close>
  "isNameLine rest =
     (let r1 = drop 4 rest
      in take 4 rest = ''NAME'' \<and> r1 \<noteq> [] \<and> isSpace (hd r1)
         \<and> \<not> list_ex isLineTerminator (dropWhile isSpace r1))"

definition sexOf :: "string \<Rightarrow> string option" where
  \<comment> \<open>\<open>rest.match(/^SEX\s+(\S)$/)\<close>, the group in upper case\<close>
  "sexOf rest =
     (let r1 = drop 3 rest; sp = takeWhile isSpace r1; t = dropWhile isSpace r1
      in if take 3 rest = ''SEX'' \<and> sp \<noteq> [] \<and> length t = 1 then Some (toUpperCase t)
         else None)"

definition parseIntDigits :: "string \<Rightarrow> nat" where
  \<comment> \<open>\<open>parseInt\<close> on a string of decimal digits\<close>
  "parseIntDigits ds = foldl (\<lambda>n c. 10 * n + (of_char c - 48)) 0 ds"

definition matchLine :: "string \<Rightarrow> (nat \<times> string) option" where
  \<comment> \<open>\<open>line.match(/^(\d+)\s+(.+)$/)\<close>: the level and the rest\<close>
  "matchLine line =
     (let ds = takeWhile isDigit line
      in if ds = [] then None
         else (case spacesThenSome (dropWhile isDigit line) of
                 None \<Rightarrow> None
               | Some rest \<Rightarrow> Some (parseIntDigits ds, rest)))"

definition newIndi :: "string \<Rightarrow> individual" where
  "newIndi gid =
     \<lparr>gedcomId = gid, givn = [], surn = [], sex = None,
      birth = \<lparr>date = None, place = None\<rparr>, death = \<lparr>date = None, place = None\<rparr>,
      burial = None\<rparr>"

definition newFam :: "string \<Rightarrow> famRecord" where
  "newFam fid = \<lparr>gedcomFamId = fid, husbandId = None, wifeId = None, childIds = []\<rparr>"

definition pushCurrent :: "parserState \<Rightarrow> parserState" where
  \<comment> \<open>\<open>if (currentIndi) individuals.push(currentIndi); if (currentFam) famRecords.push(currentFam)\<close>\<close>
  "pushCurrent st =
     st\<lparr>individuals := individuals st @ (case currentIndi st of Some i \<Rightarrow> [i] | None \<Rightarrow> []),
        famRecords := famRecords st @ (case currentFam st of Some f \<Rightarrow> [f] | None \<Rightarrow> [])\<rparr>"

definition level0 :: "string \<Rightarrow> parserState \<Rightarrow> parserState" where
  "level0 rest st =
     (pushCurrent st)\<lparr>currentIndi := map_option newIndi (xrefThen ''INDI'' rest),
                      currentFam := map_option newFam (xrefThen ''FAM'' rest),
                      currentEvent := None\<rparr>"

definition setField :: "string option \<Rightarrow> string \<Rightarrow> string" where
  \<comment> \<open>\<open>if (m) field = m[1].trim()\<close>\<close>
  "setField m old = (case m of Some v \<Rightarrow> trim v | None \<Rightarrow> old)"

definition setOpt :: "string option \<Rightarrow> string option \<Rightarrow> string option" where
  "setOpt m old = (case m of Some v \<Rightarrow> Some (trim v) | None \<Rightarrow> old)"

definition setDatePlace :: "string \<Rightarrow> datePlace \<Rightarrow> datePlace" where
  "setDatePlace rest dp =
     dp\<lparr>date := setOpt (afterTag ''DATE'' rest) (date dp),
        place := setOpt (afterTag ''PLAC'' rest) (place dp)\<rparr>"

definition indiLevel1 :: "string \<Rightarrow> individual \<Rightarrow> individual \<times> subcontext option" where
  "indiLevel1 rest i =
     (if rest = ''BIRT'' then (i, Some CBirth)
      else if rest = ''DEAT'' then (i, Some CDeath)
      else if rest = ''BURI'' then (i, Some CBurial)
      else (case sexOf rest of Some x \<Rightarrow> i\<lparr>sex := Some x\<rparr> | None \<Rightarrow> i,
            if isNameLine rest then Some CName else None))"

definition indiLevel2 :: "subcontext option \<Rightarrow> string \<Rightarrow> individual \<Rightarrow> individual" where
  "indiLevel2 ev rest i =
     (case ev of
        Some CName \<Rightarrow>
          i\<lparr>givn := setField (afterTag ''GIVN'' rest) (givn i),
            surn := setField (map_option (filter (\<lambda>c. c \<noteq> CHR ''('' \<and> c \<noteq> CHR '')''))
                                (afterTag ''SURN'' rest)) (surn i)\<rparr>
      | Some CBirth \<Rightarrow> i\<lparr>birth := setDatePlace rest (birth i)\<rparr>
      | Some CDeath \<Rightarrow> i\<lparr>death := setDatePlace rest (death i)\<rparr>
      | Some CBurial \<Rightarrow> i\<lparr>burial := setOpt (afterTag ''PLAC'' rest) (burial i)\<rparr>
      | None \<Rightarrow> i)"

definition famLevel1 :: "string \<Rightarrow> famRecord \<Rightarrow> famRecord" where
  "famLevel1 rest f =
     f\<lparr>husbandId := (case tagXref ''HUSB'' rest of Some x \<Rightarrow> Some x | None \<Rightarrow> husbandId f),
       wifeId := (case tagXref ''WIFE'' rest of Some x \<Rightarrow> Some x | None \<Rightarrow> wifeId f),
       childIds := childIds f @ (case tagXref ''CHIL'' rest of Some x \<Rightarrow> [x] | None \<Rightarrow> [])\<rparr>"

definition indiStep :: "nat \<Rightarrow> string \<Rightarrow> parserState \<Rightarrow> parserState" where
  \<comment> \<open>the block \<open>if (currentIndi) { ... }\<close>\<close>
  "indiStep level rest st =
     (case currentIndi st of
        None \<Rightarrow> st
      | Some i \<Rightarrow>
          if level = 1 then
            (case indiLevel1 rest i of (i', ev) \<Rightarrow> st\<lparr>currentIndi := Some i', currentEvent := ev\<rparr>)
          else if level = 2 then st\<lparr>currentIndi := Some (indiLevel2 (currentEvent st) rest i)\<rparr>
          else st)"

definition famStep :: "nat \<Rightarrow> string \<Rightarrow> parserState \<Rightarrow> parserState" where
  \<comment> \<open>the block \<open>if (currentFam && level === 1) { ... }\<close>\<close>
  "famStep level rest st =
     (case currentFam st of
        None \<Rightarrow> st
      | Some f \<Rightarrow> if level = 1 then st\<lparr>currentFam := Some (famLevel1 rest f)\<rparr> else st)"

definition lineStep :: "parserState \<Rightarrow> string \<Rightarrow> parserState" where
  \<comment> \<open>one turn of the loop over the lines\<close>
  "lineStep st line =
     (case matchLine line of
        None \<Rightarrow> st
      | Some (level, rest) \<Rightarrow>
          if level = 0 then level0 rest st else famStep level rest (indiStep level rest st))"

definition initialState :: parserState where
  "initialState =
     \<lparr>individuals = [], famRecords = [], currentIndi = None, currentFam = None,
      currentEvent = None\<rparr>"

definition parseRecords :: "string \<Rightarrow> individual list \<times> famRecord list" where
  \<comment> \<open>the first half of \<open>parseGedcomFull\<close>: the loop and the push of the last records\<close>
  "parseRecords content =
     (let st = pushCurrent (foldl lineStep initialState (splitLines content))
      in (individuals st, famRecords st))"

section \<open>Derived events and people: the second half of \<open>parseGedcomFull\<close>\<close>

definition truthy :: "string option \<Rightarrow> bool" where
  \<comment> \<open>a string or \<open>null\<close> in a condition: \<open>null\<close> and the empty string are falsy\<close>
  "truthy x = (case x of None \<Rightarrow> False | Some s \<Rightarrow> s \<noteq> [])"

definition orElse :: "string option \<Rightarrow> string option \<Rightarrow> string option" where
  \<comment> \<open>\<open>a || b\<close>\<close>
  "orElse a b = (if truthy a then a else b)"

fun splitOn :: "char \<Rightarrow> string \<Rightarrow> string list" where
  \<comment> \<open>\<open>s.split(sep)\<close> for a separator of one character\<close>
  "splitOn sep [] = [[]]"
| "splitOn sep (c # cs) =
     (if c = sep then [] # splitOn sep cs
      else (case splitOn sep cs of w # ws \<Rightarrow> (c # w) # ws | [] \<Rightarrow> [[c]]))"

fun joinWith :: "string \<Rightarrow> string list \<Rightarrow> string" where
  \<comment> \<open>\<open>parts.join(sep)\<close>\<close>
  "joinWith sep [] = []"
| "joinWith sep [w] = w"
| "joinWith sep (w # v # ws) = w @ sep @ joinWith sep (v # ws)"

definition capitalize :: "string \<Rightarrow> string" where
  \<comment> \<open>\<open>w.charAt(0).toUpperCase() + w.slice(1)\<close>\<close>
  "capitalize w = toUpperCase (take 1 w) @ drop 1 w"

definition nameOf :: "individual \<Rightarrow> string" where
  \<comment> \<open>\<open>[indi.givn, indi.surn].filter(Boolean).join(' ').trim()\<close>\<close>
  "nameOf indi = trim (joinWith '' '' (filter (\<lambda>s. s \<noteq> []) [givn indi, surn indi]))"

definition displayNameOf :: "string \<Rightarrow> string" where
  "displayNameOf name = joinWith '' '' (map capitalize (splitOn CHR '' '' name))"

datatype eventType = Birth | Death | Burial

record derivedEvent =
  ev_name :: string
  ev_type :: eventType
  ev_title :: string
  ev_description :: string
  ev_date :: string
  ev_rawDate :: "string option"
  ev_place :: string
  ev_category :: string

definition str :: "string option \<Rightarrow> string" where
  \<comment> \<open>a string or \<open>null\<close> inside a template literal\<close>
  "str x = (case x of None \<Rightarrow> ''null'' | Some s \<Rightarrow> s)"

definition birthEvents :: "string \<Rightarrow> individual \<Rightarrow> derivedEvent list" where
  "birthEvents displayName indi =
     (case (parseDate (date (birth indi)), place (birth indi)) of
        (Some birthDate, Some pl) \<Rightarrow>
          if birthDate \<noteq> [] \<and> pl \<noteq> [] \<and> pl \<noteq> ''?'' then
            [\<lparr>ev_name = displayName, ev_type = Birth, ev_title = displayName @ '' - Birth'',
              ev_description = ''Born: '' @ str (date (birth indi)),
              ev_date = birthDate, ev_rawDate = date (birth indi),
              ev_place = pl, ev_category = ''birth''\<rparr>]
          else []
      | _ \<Rightarrow> [])"

definition deathEvents :: "string \<Rightarrow> individual \<Rightarrow> derivedEvent list" where
  "deathEvents displayName indi =
     (case (parseDate (date (death indi)), place (death indi)) of
        (Some deathDate, Some pl) \<Rightarrow>
          if deathDate \<noteq> [] \<and> pl \<noteq> [] \<and> pl \<noteq> ''?'' then
            [\<lparr>ev_name = displayName, ev_type = Death, ev_title = displayName @ '' - Death'',
              ev_description = ''Died: '' @ str (date (death indi)),
              ev_date = deathDate, ev_rawDate = date (death indi),
              ev_place = pl, ev_category = ''death''\<rparr>]
          else []
      | _ \<Rightarrow> [])"

definition burialEvents :: "string \<Rightarrow> individual \<Rightarrow> derivedEvent list" where
  "burialEvents displayName indi =
     (case burial indi of
        Some pl \<Rightarrow>
          if pl \<noteq> [] \<and> pl \<noteq> ''?'' then
            (case orElse (parseDate (date (death indi))) (parseDate (date (birth indi))) of
               Some burialDate \<Rightarrow>
                 if burialDate \<noteq> [] then
                   [\<lparr>ev_name = displayName, ev_type = Burial,
                     ev_title = displayName @ '' - Burial'',
                     ev_description =
                       ''Burial place'' @
                       (if truthy (date (death indi))
                        then '' (died: '' @ str (date (death indi)) @ '')'' else []),
                     ev_date = burialDate,
                     ev_rawDate = orElse (date (death indi)) (date (birth indi)),
                     ev_place = pl, ev_category = ''death''\<rparr>]
                 else []
             | None \<Rightarrow> [])
          else []
      | None \<Rightarrow> [])"

definition eventsOf :: "individual \<Rightarrow> derivedEvent list" where
  \<comment> \<open>one turn of the loop \<open>for (const indi of individuals)\<close> that builds the events\<close>
  "eventsOf indi =
     (let name = nameOf indi
      in if name = [] then []
         else (let displayName = displayNameOf name
               in birthEvents displayName indi @ deathEvents displayName indi
                  @ burialEvents displayName indi))"

record person =
  p_gedcomId :: string
  p_name :: string
  p_sex :: "string option"
  p_birthDate :: "string option"
  p_birthPlace :: "string option"
  p_deathDate :: "string option"
  p_deathPlace :: "string option"

definition personOf :: "individual \<Rightarrow> person" where
  "personOf indi =
     \<lparr>p_gedcomId = gedcomId indi, p_name = displayNameOf (nameOf indi), p_sex = sex indi,
      p_birthDate = parseDate (date (birth indi)),
      p_birthPlace = orElse (place (birth indi)) None,
      p_deathDate = parseDate (date (death indi)),
      p_deathPlace = orElse (place (death indi)) None\<rparr>"

record parseResult =
  events :: "derivedEvent list"
  people :: "person list"
  families :: "famRecord list"

definition parseGedcomFull :: "string \<Rightarrow> parseResult" where
  "parseGedcomFull content =
     (case parseRecords content of
        (inds, fams) \<Rightarrow>
          \<lparr>events = concat (map eventsOf inds),
           people = map personOf (filter (\<lambda>indi. 0 < length (nameOf indi)) inds),
           families = fams\<rparr>)"

section \<open>The place normaliser: \<open>cleanPlaceName\<close> of geocoder.js\<close>

definition burialSuffixAt :: "string \<Rightarrow> bool" where
  \<comment> \<open>\<open>/\s*-\s*Burial.*$/i\<close> matches at the start of \<open>t\<close>\<close>
  "burialSuffixAt t =
     (let t1 = dropWhile isSpace t
      in t1 \<noteq> [] \<and> hd t1 = CHR ''-'' \<and>
         (let t2 = dropWhile isSpace (tl t1)
          in startsWithCI ''burial'' t2 \<and> \<not> list_ex isLineTerminator (drop 6 t2)))"

fun stripBurial :: "string \<Rightarrow> string" where
  \<comment> \<open>\<open>s.replace(/\s*-\s*Burial.*$/i, '')\<close>: the leftmost match runs to the end\<close>
  "stripBurial [] = []"
| "stripBurial (c # cs) = (if burialSuffixAt (c # cs) then [] else c # stripBurial cs)"

fun replaceCI :: "bool \<Rightarrow> string \<Rightarrow> string \<Rightarrow> bool \<Rightarrow> nat \<Rightarrow> string \<Rightarrow> string" where
  \<comment> \<open>\<open>s.replace(/LIT/gi, rep)\<close>, and \<open>s.replace(/\bLIT\b/gi, rep)\<close> when \<open>bounded\<close>, for a
      lower-case literal that starts and ends with a word character in the bounded case.
      \<open>prevWord\<close>: the character before is a word character; \<open>skip\<close>: how many characters
      of the last match are still to pass.\<close>
  "replaceCI bounded lit rep prevWord skip [] = []"
| "replaceCI bounded lit rep prevWord skip (c # cs) =
     (if 0 < skip then replaceCI bounded lit rep (isWordChar c) (skip - 1) cs
      else if startsWithCI lit (c # cs) \<and>
              (bounded \<longrightarrow> \<not> prevWord \<and>
                 (let r = drop (length lit) (c # cs) in r = [] \<or> \<not> isWordChar (hd r)))
      then rep @ replaceCI bounded lit rep (isWordChar c) (length lit - 1) cs
      else c # replaceCI bounded lit rep (isWordChar c) 0 cs)"

fun commaPairs :: "nat \<Rightarrow> string \<Rightarrow> string" where
  \<comment> \<open>\<open>s.replace(/,\s*,/g, ',')\<close>\<close>
  "commaPairs skip [] = []"
| "commaPairs skip (c # cs) =
     (if 0 < skip then commaPairs (skip - 1) cs
      else if c = CHR '','' \<and> (let r = dropWhile isSpace cs in r \<noteq> [] \<and> hd r = CHR '','')
      then CHR '','' # commaPairs (Suc (length (takeWhile isSpace cs))) cs
      else c # commaPairs 0 cs)"

definition trailingComma :: "string \<Rightarrow> string" where
  \<comment> \<open>\<open>s.replace(/,\s*$/g, '')\<close>\<close>
  "trailingComma s =
     (let r = rev (dropWhile isSpace (rev s))
      in if r \<noteq> [] \<and> last r = CHR '','' then butlast r else s)"

definition leadingComma :: "string \<Rightarrow> string" where
  \<comment> \<open>\<open>s.replace(/^\s*,/g, '')\<close>\<close>
  "leadingComma s =
     (let r = dropWhile isSpace s in if r \<noteq> [] \<and> hd r = CHR '','' then tl r else s)"

fun collapseSpaces :: "bool \<Rightarrow> string \<Rightarrow> string" where
  \<comment> \<open>\<open>s.replace(/\s+/g, ' ')\<close>; \<open>inRun\<close>: the character before was a space of the same run\<close>
  "collapseSpaces inRun [] = []"
| "collapseSpaces inRun (c # cs) =
     (if isSpace c then (if inRun then [] else '' '') @ collapseSpaces True cs
      else c # collapseSpaces False cs)"

definition Kolobrzeg :: string where
  \<comment> \<open>\<open>'Ko\<dots>obrzeg, Poland'\<close>; its third letter U+0142 is no code unit of the model and
      stands here as its two UTF-8 bytes\<close>
  "Kolobrzeg = ''Ko'' @ [CHR 0xC5, CHR 0x82] @ ''obrzeg, Poland''"

definition cleanPlaceName :: "string \<Rightarrow> string option" where
  "cleanPlaceName pl =
     (if pl = [] \<or> pl = ''?'' then None
      else
        (let s1 = stripBurial pl;
             s2 = replaceCI True ''ceylon'' ''Sri Lanka'' False 0 s1;
             s3 = replaceCI False ''(sri lanka)'' [] False 0 s2;
             s4 = replaceCI False ''(ceylon)'' [] False 0 s3;
             s5 = replaceCI False ''western prov.'' ''Western Province'' False 0 s4;
             s6 = replaceCI True ''engnd'' ''England'' False 0 s5;
             s7 = replaceCI True ''belgique'' ''Belgium'' False 0 s6;
             s8 = commaPairs 0 s7;
             s9 = trailingComma s8;
             s10 = leadingComma s9;
             s11 = trim (collapseSpaces False s10);
             s12 = (if toLowerCase s11 = ''brugge'' then ''Brugge, Belgium'' else s11);
             cleaned = (if toLowerCase s12 = ''kolberg'' then Kolobrzeg else s12)
         in if cleaned = [] then None else Some cleaned))"

section \<open>The geocoding service: \<open>geocode\<close> and \<open>geocodeAll\<close> of geocoder.js\<close>

text \<open>
  The outside world is a function from the text of a query to what the lookup gives:
  the coordinates of the first candidate, no candidate, or a failure (a network error,
  a timeout, a body that is not JSON). The state of the module is its cache, where a
  key may be bound to \<open>null\<close>, and, for the sake of the claims, the list of the queries
  sent so far. The waiting between two requests is not part of the model.
\<close>

datatype 'c response = Found 'c | NoResult | Failed

type_synonym 'c service = "string \<Rightarrow> 'c response"

record 'c geoState =
  cache :: "string \<rightharpoonup> 'c option"
  requests :: "string list"

definition lookup :: "'c service \<Rightarrow> string \<Rightarrow> 'c geoState \<Rightarrow> 'c response \<times> 'c geoState" where
  \<comment> \<open>one \<open>fetchJson\<close> of the search URL for a query\<close>
  "lookup svc query st = (svc query, st\<lparr>requests := requests st @ [query]\<rparr>)"

definition cacheSet :: "string \<Rightarrow> 'c option \<Rightarrow> 'c geoState \<Rightarrow> 'c geoState" where
  "cacheSet k v st = st\<lparr>cache := (cache st)(k \<mapsto> v)\<rparr>"

definition simplifiedQuery :: "string \<Rightarrow> string option" where
  \<comment> \<open>the last two comma-separated parts when there are more than two\<close>
  "simplifiedQuery cleaned =
     (let parts = map trim (splitOn CHR '','' cleaned)
      in if 2 < length parts then Some (joinWith '', '' (drop (length parts - 2) parts))
         else None)"

definition geocode :: "'c service \<Rightarrow> 'c geoState \<Rightarrow> string \<Rightarrow> 'c option \<times> 'c geoState" where
  "geocode svc st pl =
     (case cleanPlaceName pl of
        None \<Rightarrow> (None, st)
      | Some cleaned \<Rightarrow>
          (case cache st cleaned of
             Some v \<Rightarrow> (v, st)
           | None \<Rightarrow>
               (case lookup svc cleaned st of
                  (Found c, st1) \<Rightarrow> (Some c, cacheSet cleaned (Some c) st1)
                | (Failed, st1) \<Rightarrow> (None, cacheSet cleaned None st1)
                | (NoResult, st1) \<Rightarrow>
                    (case simplifiedQuery cleaned of
                       None \<Rightarrow> (None, cacheSet cleaned None st1)
                     | Some simplified \<Rightarrow>
                         (case lookup svc simplified st1 of
                            (Found c, st2) \<Rightarrow> (Some c, cacheSet cleaned (Some c) st2)
                          | (_, st2) \<Rightarrow> (None, cacheSet cleaned None st2))))))"

fun uniqueOf :: "'a list \<Rightarrow> 'a list" where
  \<comment> \<open>\<open>[...new Set(xs)]\<close>: the first occurrence of each element, in order\<close>
  "uniqueOf [] = []"
| "uniqueOf (x # xs) = x # filter (\<lambda>y. y \<noteq> x) (uniqueOf xs)"

fun geocodeLoop ::
  "'c service \<Rightarrow> 'c geoState \<Rightarrow> (string \<times> 'c) list \<Rightarrow> string list
     \<Rightarrow> (string \<times> 'c) list \<times> 'c geoState" where
  "geocodeLoop svc st results [] = (results, st)"
| "geocodeLoop svc st results (pl # rest) =
     (case geocode svc st pl of
        (Some coords, st') \<Rightarrow> geocodeLoop svc st' (results @ [(pl, coords)]) rest
      | (None, st') \<Rightarrow> geocodeLoop svc st' results rest)"

definition geocodeAll ::
  "'c service \<Rightarrow> 'c geoState \<Rightarrow> string list \<Rightarrow> (string \<times> 'c) list \<times> 'c geoState" where
  \<comment> \<open>the result is the \<open>Map\<close> of the source, as the list of its entries in insertion order\<close>
  "geocodeAll svc st places =
     geocodeLoop svc st [] (uniqueOf (filter (\<lambda>p. p \<noteq> [] \<and> p \<noteq> ''?'') places))"

section \<open>The import: \<open>POST /import-gedcom\<close> of routes/events.js\<close>

record 'c appEvent =
  ae_title :: string
  ae_description :: "string option"
  ae_date :: string
  ae_coords :: 'c
  ae_category :: string
  ae_source :: string

record 'c world =
  geo :: "'c geoState"
  storedPeople :: "person list"
  storedFamilies :: "famRecord list"
  appEvents :: "'c appEvent list"

record importResult =
  imported :: nat
  skipped :: nat
  res_people :: "string list"
  peopleCount :: nat
  familiesCount :: nat
  message :: string

record 'c importLoop =
  l_imported :: nat
  l_skipped :: nat
  l_peopleSet :: "string list"
  l_created :: "'c appEvent list"

fun showNat :: "nat \<Rightarrow> string" where
  \<comment> \<open>a count inside a template literal\<close>
  "showNat n =
     (if n < 10 then [''0123456789'' ! n] else showNat (n div 10) @ [''0123456789'' ! (n mod 10)])"

definition setAdd :: "string \<Rightarrow> string list \<Rightarrow> string list" where
  \<comment> \<open>\<open>set.add(x)\<close> on a \<open>Set\<close> kept as the list of its elements in insertion order\<close>
  "setAdd x xs = (if x \<in> set xs then xs else xs @ [x])"

definition createWithSource :: "derivedEvent \<Rightarrow> 'c \<Rightarrow> 'c appEvent" where
  "createWithSource evt coords =
     \<lparr>ae_title = ev_title evt,
      ae_description = orElse (Some (ev_description evt)) None,
      ae_date = ev_date evt, ae_coords = coords,
      ae_category = (if ev_category evt \<noteq> [] then ev_category evt else ''other''),
      ae_source = ''gedcom''\<rparr>"

definition importStep :: "(string \<times> 'c) list \<Rightarrow> 'c importLoop \<Rightarrow> derivedEvent \<Rightarrow> 'c importLoop" where
  \<comment> \<open>one turn of \<open>for (const evt of parsedEvents)\<close>\<close>
  "importStep geocoded l evt =
     (case map_of geocoded (ev_place evt) of
        None \<Rightarrow> l\<lparr>l_skipped := l_skipped l + 1\<rparr>
      | Some coords \<Rightarrow>
          l\<lparr>l_created := l_created l @ [createWithSource evt coords],
            l_imported := l_imported l + 1,
            l_peopleSet := setAdd (ev_name evt) (l_peopleSet l)\<rparr>)"

definition importGedcom :: "'c service \<Rightarrow> 'c world \<Rightarrow> string \<Rightarrow> importResult \<times> 'c world" where
  "importGedcom svc w content =
     (let parsed = parseGedcomFull content;
          w1 = w\<lparr>storedPeople := people parsed, storedFamilies := families parsed\<rparr>;
          stored = ''Stored '' @ showNat (length (people parsed)) @ '' people and ''
                   @ showNat (length (families parsed)) @ '' family links.''
      in if length (events parsed) = 0 then
           (\<lparr>imported = 0, skipped = 0, res_people = sort (map p_name (people parsed)),
             peopleCount = length (people parsed), familiesCount = length (families parsed),
             message = ''No geocodable events found. '' @ stored\<rparr>, w1)
         else
           (case geocodeAll svc (geo w1) (map ev_place (events parsed)) of
              (geocoded, g) \<Rightarrow>
                (let l = foldl (importStep geocoded)
                           \<lparr>l_imported = 0, l_skipped = 0, l_peopleSet = [], l_created = []\<rparr>
                           (events parsed)
                 in (\<lparr>imported = l_imported l, skipped = l_skipped l,
                      res_people = sort (l_peopleSet l),
                      peopleCount = length (people parsed),
                      familiesCount = length (families parsed),
                      message = ''Successfully imported '' @ showNat (l_imported l)
                                @ '' events for '' @ showNat (length (l_peopleSet l))
                                @ '' people. '' @ stored\<rparr>,
                     w1\<lparr>geo := g, appEvents := appEvents w1 @ l_created l\<rparr>))))"

section \<open>The tree builders: \<open>buildGedcomTree\<close> and \<open>buildFamilyTree\<close> of Profile.jsx\<close>

text \<open>
  The builders keep one node object per id in an object used as a map (\<open>peopleMap\<close>,
  \<open>memberMap\<close>) and link the objects by reference: the \<open>children\<close> array of a node holds
  the node objects of its children. The model keeps the map as the list of its
  properties in creation order; a node refers to its children by their keys. What the
  builder returns is read off as a tree value, the unfolding of the object graph from
  the node returned.

  The ids of the parsed genealogy are the cross-references \<open>@...@\<close> that the parser
  stored: none of them is an array index or a name that an object inherits, so
  \<open>Object.values\<close> lists such a map in creation order. The ids of the live members are
  the integers of the users table: array indices come first in ascending order.
\<close>

definition xrefFamily :: "famRecord \<Rightarrow> bool" where
  \<comment> \<open>every id of the family link is a cross-reference \<open>@...@\<close>\<close>
  "xrefFamily f =
     ((case husbandId f of Some h \<Rightarrow> isXref h | None \<Rightarrow> True)
      \<and> (case wifeId f of Some w \<Rightarrow> isXref w | None \<Rightarrow> True)
      \<and> list_all isXref (childIds f))"

definition xrefInput :: "person list \<Rightarrow> famRecord list \<Rightarrow> bool" where
  \<comment> \<open>the people and family links are as the parser stores them: every id is a
      cross-reference\<close>
  "xrefInput ps fams = (list_all (\<lambda>p. isXref (p_gedcomId p)) ps \<and> list_all xrefFamily fams)"

definition xrefState :: "parserState \<Rightarrow> bool" where
  \<comment> \<open>the same of the records of a state of the parser\<close>
  "xrefState st =
     (list_all (\<lambda>i. isXref (gedcomId i)) (individuals st)
      \<and> list_all xrefFamily (famRecords st)
      \<and> (case currentIndi st of Some i \<Rightarrow> isXref (gedcomId i) | None \<Rightarrow> True)
      \<and> (case currentFam st of Some f \<Rightarrow> xrefFamily f | None \<Rightarrow> True))"

datatype attr = AStr string | ANum nat

record 'k gnode =
  n_name :: string
  n_attributes :: "(string \<times> attr) list"
  n_children :: "'k list"
  n_hasParent :: bool

datatype tree = Node (t_name: string) (t_attributes: "(string \<times> attr) list") (t_children: "tree list")

datatype error = RangeError

fun setProp :: "'a \<Rightarrow> 'b \<Rightarrow> ('a \<times> 'b) list \<Rightarrow> ('a \<times> 'b) list" where
  \<comment> \<open>\<open>obj[k] = v\<close>: a new property comes last, an old one keeps its place\<close>
  "setProp k v [] = [(k, v)]"
| "setProp k v ((k', v') # rest) =
     (if k' = k then (k, v) # rest else (k', v') # setProp k v rest)"

definition updNode :: "'k \<Rightarrow> ('k gnode \<Rightarrow> 'k gnode) \<Rightarrow> ('k \<times> 'k gnode) list \<Rightarrow> ('k \<times> 'k gnode) list" where
  \<comment> \<open>a change made to the node object of key \<open>k\<close>\<close>
  "updNode k f m = map (\<lambda>(k', nd). if k' = k then (k', f nd) else (k', nd)) m"

definition attrStr :: "(string \<times> attr) list \<Rightarrow> string \<Rightarrow> string" where
  \<comment> \<open>a string attribute in a condition or a template: absent reads as the empty string\<close>
  "attrStr attrs k = (case map_of attrs k of Some (AStr s) \<Rightarrow> s | _ \<Rightarrow> [])"

definition strOr :: "string option \<Rightarrow> string \<Rightarrow> string" where
  \<comment> \<open>\<open>x || d\<close> for a string or \<open>null\<close> and a string default\<close>
  "strOr x d = (case x of Some s \<Rightarrow> if s \<noteq> [] then s else d | None \<Rightarrow> d)"

definition gedcomNode :: "person \<Rightarrow> string gnode" where
  \<comment> \<open>the node of a row of \<open>gedcom_people\<close>; \<open>gedcomId\<close> is its key\<close>
  "gedcomNode p =
     \<lparr>n_name = p_name p,
      n_attributes =
        [(''born'', AStr (take 4 (strOr (p_birthDate p) []))),
         (''died'', AStr (take 4 (strOr (p_deathDate p) []))),
         (''sex'', AStr (strOr (p_sex p) [])),
         (''birthPlace'', AStr (strOr (p_birthPlace p) [])),
         (''deathPlace'', AStr (strOr (p_deathPlace p) [])),
         (''birthDate'', AStr (strOr (p_birthDate p) [])),
         (''deathDate'', AStr (strOr (p_deathDate p) []))],
      n_children = [], n_hasParent = False\<rparr>"

definition peopleMapOf :: "person list \<Rightarrow> (string \<times> string gnode) list" where
  "peopleMapOf ps = foldl (\<lambda>m p. setProp (p_gedcomId p) (gedcomNode p) m) [] ps"

definition attach :: "'k \<Rightarrow> ('k \<times> 'k gnode) list \<Rightarrow> 'k \<Rightarrow> ('k \<times> 'k gnode) list" where
  \<comment> \<open>\<open>parent.children.push(map[childId]); map[childId]._hasParent = true\<close>\<close>
  "attach parentKey m childId =
     updNode childId (\<lambda>nd. nd\<lparr>n_hasParent := True\<rparr>)
       (updNode parentKey (\<lambda>nd. nd\<lparr>n_children := n_children nd @ [childId]\<rparr>) m)"

definition attachKnown :: "'k \<Rightarrow> ('k \<times> 'k gnode) list \<Rightarrow> 'k \<Rightarrow> ('k \<times> 'k gnode) list" where
  \<comment> \<open>\<open>if (map[childId]) { ... }\<close>: a child id with no node is passed over\<close>
  "attachKnown parentKey m childId =
     (if map_of m childId \<noteq> None then attach parentKey m childId else m)"

definition spouseStep :: "famRecord \<Rightarrow> (string \<times> string gnode) list \<Rightarrow> (string \<times> string gnode) list" where
  \<comment> \<open>the wife as the \<open>spouse\<close> and \<open>spouseYears\<close> attributes of the husband\<close>
  "spouseStep fam m =
     (case (husbandId fam, wifeId fam) of
        (Some h, Some w) \<Rightarrow>
          (case (map_of m h, map_of m w) of
             (Some hn, Some wn) \<Rightarrow>
               if h \<noteq> [] \<and> w \<noteq> [] then
                 (let m1 = updNode h (\<lambda>nd. nd\<lparr>n_attributes :=
                             setProp ''spouse'' (AStr (n_name wn)) (n_attributes nd)\<rparr>) m;
                      wifeBorn = attrStr (n_attributes wn) ''born'';
                      wifeDied = attrStr (n_attributes wn) ''died''
                  in if wifeBorn \<noteq> [] \<or> wifeDied \<noteq> [] then
                       updNode h (\<lambda>nd. nd\<lparr>n_attributes :=
                             setProp ''spouseYears''
                               (AStr (strOr (Some wifeBorn) ''?'' @ '' - '' @ strOr (Some wifeDied) ''?''))
                               (n_attributes nd)\<rparr>) m1
                     else m1)
               else m
           | _ \<Rightarrow> m)
      | _ \<Rightarrow> m)"

definition primaryParent :: "famRecord \<Rightarrow> string option" where
  \<comment> \<open>\<open>fam.husbandId || fam.wifeId\<close>, \<open>None\<close> when it is falsy\<close>
  "primaryParent fam =
     (let parentId = orElse (husbandId fam) (wifeId fam)
      in if truthy parentId then parentId else None)"

definition familyStep :: "(string \<times> string gnode) list \<Rightarrow> famRecord \<Rightarrow> (string \<times> string gnode) list" where
  \<comment> \<open>one turn of \<open>for (const fam of families)\<close>\<close>
  "familyStep m fam =
     (let m1 = spouseStep fam m
      in case primaryParent fam of
           None \<Rightarrow> m1
         | Some parentId \<Rightarrow>
             if map_of m parentId \<noteq> None
             then foldl (attachKnown parentId) m1 (childIds fam)
             else m1)"

fun cleanNode :: "nat \<Rightarrow> ('k \<times> 'k gnode) list \<Rightarrow> 'k \<Rightarrow> tree option" where
  \<comment> \<open>the tree under the node of key \<open>k\<close>, as \<open>cleanNode\<close> walks it, to a depth of \<open>d\<close>
      nodes; \<open>None\<close> when there is more below\<close>
  "cleanNode 0 m k = None"
| "cleanNode (Suc d) m k =
     (case map_of m k of
        None \<Rightarrow> None
      | Some nd \<Rightarrow>
          (case those (map (cleanNode d m) (n_children nd)) of
             None \<Rightarrow> None
           | Some ts \<Rightarrow> Some (Node (n_name nd) (n_attributes nd) ts)))"

text \<open>
  \<open>cleanNode\<close> of the source recurses through the \<open>children\<close> arrays with no other
  bound. A path of more nodes than the map holds passes twice through one node, and the
  recursion along it never ends: the call stack overflows and a \<open>RangeError\<close> is thrown.
  So the walk is given a depth of as many nodes as the map holds.
\<close>

definition finish :: "string \<Rightarrow> ('k \<times> 'k gnode) list \<Rightarrow> 'k list \<Rightarrow> error + tree option" where
  \<comment> \<open>the end of both builders, from the list of the roots on\<close>
  "finish label m roots =
     (case roots of
        [] \<Rightarrow> Inr None
      | [r] \<Rightarrow> (case cleanNode (length m) m r of None \<Rightarrow> Inl RangeError | Some t \<Rightarrow> Inr (Some t))
      | _ \<Rightarrow>
          (case those (map (cleanNode (length m) m) roots) of
             None \<Rightarrow> Inl RangeError
           | Some ts \<Rightarrow> Inr (Some (Node label [] ts))))"

definition rootKeys :: "'k list \<Rightarrow> ('k \<times> 'k gnode) list \<Rightarrow> 'k list" where
  \<comment> \<open>\<open>Object.values(map).filter(p => !p._hasParent)\<close>, over the keys in the order of
      \<open>Object.values\<close>\<close>
  "rootKeys ks m = filter (\<lambda>k. case map_of m k of Some nd \<Rightarrow> \<not> n_hasParent nd | None \<Rightarrow> False) ks"

definition buildGedcomTree :: "person list \<Rightarrow> famRecord list \<Rightarrow> error + tree option" where
  "buildGedcomTree ps fams =
     (if length ps = 0 then Inr None
      else (let m = foldl familyStep (peopleMapOf ps) fams
            in finish ''Ancestors'' m (rootKeys (map fst m) m)))"

record member =
  m_id :: nat
  m_name :: string

record relationship =
  user_id :: nat
  related_user_id :: nat
  rel_kind :: string

definition memberNode :: "member \<Rightarrow> nat gnode" where
  "memberNode mb =
     \<lparr>n_name = m_name mb, n_attributes = [(''memberId'', ANum (m_id mb))],
      n_children = [], n_hasParent = False\<rparr>"

definition memberMapOf :: "member list \<Rightarrow> (nat \<times> nat gnode) list" where
  "memberMapOf ms = foldl (\<lambda>m mb. setProp (m_id mb) (memberNode mb) m) [] ms"

definition relationStep :: "(nat \<times> nat gnode) list \<Rightarrow> relationship \<Rightarrow> (nat \<times> nat gnode) list" where
  \<comment> \<open>one turn of \<open>for (const rel of relationships)\<close>\<close>
  "relationStep m rel =
     (case (map_of m (user_id rel), map_of m (related_user_id rel)) of
        (Some un, Some rn) \<Rightarrow>
          (let m1 = (if rel_kind rel = ''parent''
                     then attach (user_id rel) m (related_user_id rel) else m)
           in if rel_kind rel = ''spouse''
                 \<and> (case map_of (n_attributes un) ''spouse'' of
                       None \<Rightarrow> True | Some (AStr s) \<Rightarrow> s = [] | Some (ANum n) \<Rightarrow> n = 0)
              then updNode (user_id rel) (\<lambda>nd. nd\<lparr>n_attributes :=
                     setProp ''spouse'' (AStr (n_name rn)) (n_attributes nd)\<rparr>) m1
              else m1)
      | _ \<Rightarrow> m)"

definition objectKeysNat :: "nat list \<Rightarrow> nat list" where
  \<comment> \<open>the order of \<open>Object.values\<close> for integer keys given in creation order: the array
      indices (below \<open>2^32 - 1\<close>) ascending, then the other keys as created\<close>
  "objectKeysNat ks =
     sort (filter (\<lambda>k. k < 4294967295) ks) @ filter (\<lambda>k. \<not> k < 4294967295) ks"

definition buildFamilyTree :: "member list \<Rightarrow> relationship list \<Rightarrow> error + tree option" where
  "buildFamilyTree ms rels =
     (if length ms = 0 then Inr None
      else (let m = foldl relationStep (memberMapOf ms) rels
            in finish ''Family'' m (rootKeys (objectKeysNat (map fst m)) m)))"

fun nodeCount :: "tree \<Rightarrow> nat" where
  "nodeCount (Node n a ts) = Suc (sum_list (map nodeCount ts))"

section \<open>Example inputs\<close>

definition LF :: string where
  "LF = [CHR 0x0A]"

definition gedcomNameLineOnly :: string where
  \<comment> \<open>a person whose name is given on the \<open>NAME\<close> line alone, with a birth\<close>
  "gedcomNameLineOnly =
     ''0 @I1@ INDI'' @ LF @ ''1 NAME John /Smith/'' @ LF @ ''1 BIRT'' @ LF
     @ ''2 DATE 12 OCT 1982'' @ LF @ ''2 PLAC Sydney, Australia''"

definition gedcomBurialNoName :: string where
  \<comment> \<open>a person whose name is given on the \<open>NAME\<close> line alone, with a death and a burial\<close>
  "gedcomBurialNoName =
     ''0 @I1@ INDI'' @ LF @ ''1 NAME Mary /Jones/'' @ LF @ ''1 DEAT'' @ LF
     @ ''2 DATE 1900'' @ LF @ ''1 BURI'' @ LF @ ''2 PLAC Highgate Cemetery, London''"

definition gedcomJohnSmith :: string where
  "gedcomJohnSmith =
     ''0 @I1@ INDI'' @ LF @ ''1 NAME john /SMITH/'' @ LF @ ''2 GIVN john'' @ LF
     @ ''2 SURN SMITH'' @ LF @ ''1 SEX M''"

definition johnBorn :: individual where
  "johnBorn =
     \<lparr>gedcomId = ''@I1@'', givn = ''John'', surn = ''Smith'', sex = Some ''M'',
      birth = \<lparr>date = Some ''12 OCT 1982'', place = Some ''Sydney, Australia''\<rparr>,
      death = \<lparr>date = Some ''2050'', place = Some ''?''\<rparr>,
      burial = None\<rparr>"

definition emileZOLA :: individual where
  \<comment> \<open>a given name that begins with U+00E9, the small e with acute\<close>
  "emileZOLA =
     \<lparr>gedcomId = ''@I3@'', givn = [CHR 0xE9] @ ''mile'', surn = ''ZOLA'', sex = Some ''M'',
      birth = \<lparr>date = None, place = None\<rparr>,
      death = \<lparr>date = None, place = None\<rparr>,
      burial = None\<rparr>"

definition maryBuried :: individual where
  "maryBuried =
     \<lparr>gedcomId = ''@I2@'', givn = ''Mary'', surn = ''Jones'', sex = Some ''F'',
      birth = \<lparr>date = Some ''Abt. 1756'', place = None\<rparr>,
      death = \<lparr>date = Some ''BET 1800 AND 1810'', place = None\<rparr>,
      burial = Some ''Highgate Cemetery, London''\<rparr>"

definition sydneyService :: "(string \<times> string) service" where
  \<comment> \<open>a service that knows one place; the coordinates are the decimal strings of the
      first candidate\<close>
  "sydneyService query =
     (if query = ''Sydney, Australia'' then Found (''-33.8'', ''151.2'') else NoResult)"

definition emptyGeo :: "(string \<times> string) geoState" where
  "emptyGeo = \<lparr>cache = Map.empty, requests = []\<rparr>"

definition emptyWorld :: "(string \<times> string) world" where
  "emptyWorld = \<lparr>geo = emptyGeo, storedPeople = [], storedFamilies = [], appEvents = []\<rparr>"

definition examplePlaces :: "string list" where
  "examplePlaces = [''Sydney, Australia'', ''Perth, X, Mars'', ''?'', ''Sydney, Australia'']"

definition gedcomUnknownPlace :: string where
  \<comment> \<open>a person whose birth place is the placeholder\<close>
  "gedcomUnknownPlace =
     ''0 @I1@ INDI'' @ LF @ ''1 NAME John /Smith/'' @ LF @ ''2 GIVN John'' @ LF
     @ ''2 SURN Smith'' @ LF @ ''1 BIRT'' @ LF @ ''2 DATE 12 OCT 1982'' @ LF @ ''2 PLAC ?''"

definition gedcomSydney :: string where
  \<comment> \<open>the person of the end-to-end example, with a death at a place the service does not know\<close>
  "gedcomSydney =
     ''0 @I1@ INDI'' @ LF @ ''1 NAME John /Smith/'' @ LF @ ''2 GIVN John'' @ LF
     @ ''2 SURN Smith'' @ LF @ ''1 BIRT'' @ LF @ ''2 DATE 12 OCT 1982'' @ LF
     @ ''2 PLAC Sydney, Australia'' @ LF @ ''1 DEAT'' @ LF @ ''2 DATE 2050'' @ LF
     @ ''2 PLAC Mars''"

definition johnUnknown :: individual where
  "johnUnknown =
     \<lparr>gedcomId = ''@I1@'', givn = ''John'', surn = ''Smith'', sex = None,
      birth = \<lparr>date = Some ''12 OCT 1982'', place = Some ''?''\<rparr>,
      death = \<lparr>date = None, place = None\<rparr>,
      burial = None\<rparr>"

definition plainPerson :: "string \<Rightarrow> string \<Rightarrow> person" where
  \<comment> \<open>a stored person with an id and a name only\<close>
  "plainPerson i n =
     \<lparr>p_gedcomId = i, p_name = n, p_sex = None, p_birthDate = None, p_birthPlace = None,
      p_deathDate = None, p_deathPlace = None\<rparr>"

definition plainAttributes :: "(string \<times> attr) list" where
  \<comment> \<open>the attributes of the node of such a person\<close>
  "plainAttributes =
     [(''born'', AStr []), (''died'', AStr []), (''sex'', AStr []), (''birthPlace'', AStr []),
      (''deathPlace'', AStr []), (''birthDate'', AStr []), (''deathDate'', AStr [])]"

definition family :: "string \<Rightarrow> string option \<Rightarrow> string option \<Rightarrow> string list \<Rightarrow> famRecord" where
  "family f h w cs = \<lparr>gedcomFamId = f, husbandId = h, wifeId = w, childIds = cs\<rparr>"

definition threePeople :: "person list" where
  "threePeople =
     [plainPerson ''@I1@'' ''Adam'', plainPerson ''@I2@'' ''Bob'', plainPerson ''@I3@'' ''Cain'']"

definition twoFathers :: "famRecord list" where
  \<comment> \<open>the child \<open>@I3@\<close> is listed under two family links\<close>
  "twoFathers =
     [family ''@F1@'' (Some ''@I1@'') None [''@I3@''],
      family ''@F2@'' (Some ''@I2@'') None [''@I3@'']]"

definition oneLine :: "famRecord list" where
  \<comment> \<open>\<open>@I1@\<close> is the parent of \<open>@I2@\<close>, who is the parent of \<open>@I3@\<close>\<close>
  "oneLine =
     [family ''@F1@'' (Some ''@I1@'') None [''@I2@''],
      family ''@F2@'' (Some ''@I2@'') None [''@I3@'']]"

definition twoMembers :: "member list" where
  \<comment> \<open>the member with the greater id comes first\<close>
  "twoMembers = [\<lparr>m_id = 2, m_name = ''Bob''\<rparr>, \<lparr>m_id = 1, m_name = ''Alice''\<rparr>]"

definition generation :: "string \<Rightarrow> nat" where
  \<comment> \<open>a numbering of the generations of \<open>oneLine\<close>, the youngest being 0\<close>
  "generation k = (if k = ''@I1@'' then 2 else if k = ''@I2@'' then 1 else 0)"

definition cycleBelow :: "famRecord list" where
  \<comment> \<open>\<open>@I1@\<close> is the parent of \<open>@I2@\<close>, and \<open>@I2@\<close> and \<open>@I3@\<close> are each the parent of
      the other\<close>
  "cycleBelow =
     [family ''@F1@'' (Some ''@I1@'') None [''@I2@''],
      family ''@F2@'' (Some ''@I2@'') None [''@I3@''],
      family ''@F3@'' (Some ''@I3@'') None [''@I2@'']]"

section \<open>Facts about the date normaliser\<close>

lemma fromDash_nonempty: "fromDash s \<noteq> Some []"
  by (auto simp: fromDash_def split: option.splits prod.splits)

lemma fromDmy_nonempty: "fromDmy s \<noteq> Some []"
  by (auto simp: fromDmy_def split: option.splits prod.splits)

lemma fromMdy_nonempty: "fromMdy s \<noteq> Some []"
  by (auto simp: fromMdy_def split: option.splits prod.splits)

lemma fromMy_nonempty: "fromMy s \<noteq> Some []"
  by (auto simp: fromMy_def split: option.splits prod.splits)

lemma parseCleaned_nonempty: "parseCleaned s \<noteq> Some []"
  using fromDash_nonempty [of s] fromDmy_nonempty [of s] fromMdy_nonempty [of s]
    fromMy_nonempty [of s]
  by (auto simp: parseCleaned_def split: option.splits if_splits)

lemma parseDate_nonempty: "parseDate x \<noteq> Some []"
  using parseCleaned_nonempty by (auto simp: parseDate_def split: option.splits)

text \<open>The example table of the specification.\<close>

lemma parseDate_table:
  "parseDate (Some ''12 Oct 1982'') = Some ''1982-10-12''"
  "parseDate (Some ''01-Feb-1837'') = Some ''1837-02-01''"
  "parseDate (Some ''May 12, 1805'') = Some ''1805-05-12''"
  "parseDate (Some ''Jan 1900'') = Some ''1900-01-01''"
  "parseDate (Some ''1567'') = Some ''1567-01-01''"
  "parseDate (Some ''Abt. 1756'') = Some ''1756-01-01''"
  "parseDate (Some ''Unknown'') = None"
  "parseDate (Some ''BET 1700 AND 1710'') = None"
  by code_simp+

text \<open>
  The patterns are tried in the order of the specification, and the first one that
  yields a date wins.
\<close>

lemma parseCleaned_order:
  "parseCleaned c =
     (if c = [] \<or> toLowerCase c = ''unknown'' then None
      else if isYear c then Some (c @ ''-01-01'')
      else if fromDash c \<noteq> None then fromDash c
      else if fromDmy c \<noteq> None then fromDmy c
      else if fromMdy c \<noteq> None then fromMdy c
      else fromMy c)"
  by (auto simp: parseCleaned_def split: option.splits)

lemma monthOf_range: "monthOf w = Some m \<Longrightarrow> m \<in> snd ` set (MONTHS @ MONTHS_inherited)"
  unfolding monthOf_def by (metis map_of_SomeD image_eqI snd_conv)

lemma padStart2_digits:
  assumes "length d = 1 \<or> length d = 2" "list_all isDigit d"
  shows "length (padStart2 d) = 2 \<and> list_all isDigit (padStart2 d)"
  using assms by (auto simp: padStart2_def isDigit_def)

lemma takeWhile_digits: "list_all isDigit (takeWhile isDigit s)"
  by (induction s) auto

lemma shape_dash: "fromDash s = Some r \<Longrightarrow> dateShape r"
proof -
  assume a: "fromDash s = Some r"
  then obtain d w y m where m: "matchDash s = Some (d, w, y)" "monthOf w = Some m"
    and r: "r = y @ ''-'' @ m @ ''-'' @ padStart2 d"
    by (auto simp: fromDash_def split: option.splits)
  from m(1) have "isYear y" "length d = 1 \<or> length d = 2" "d = takeWhile isDigit s"
    by (auto simp: matchDash_def Let_def split: if_splits list.splits)
  with padStart2_digits [of d] takeWhile_digits [of s] monthOf_range [OF m(2)] r
  show ?thesis by blast
qed

lemma shape_dmy: "fromDmy s = Some r \<Longrightarrow> dateShape r"
proof -
  assume a: "fromDmy s = Some r"
  then obtain d w y m where m: "matchDmy s = Some (d, w, y)" "monthOf w = Some m"
    and r: "r = y @ ''-'' @ m @ ''-'' @ padStart2 d"
    by (auto simp: fromDmy_def split: option.splits)
  from m(1) have "isYear y" "length d = 1 \<or> length d = 2" "d = takeWhile isDigit s"
    by (auto simp: matchDmy_def Let_def split: if_splits)
  with padStart2_digits [of d] takeWhile_digits [of s] monthOf_range [OF m(2)] r
  show ?thesis by blast
qed

lemma shape_mdy: "fromMdy s = Some r \<Longrightarrow> dateShape r"
proof -
  assume a: "fromMdy s = Some r"
  then obtain d w y m where m: "matchMdy s = Some (w, d, y)" "monthOf w = Some m"
    and r: "r = y @ ''-'' @ m @ ''-'' @ padStart2 d"
    by (auto simp: fromMdy_def split: option.splits)
  from m(1) have "isYear y" "length d = 1 \<or> length d = 2"
    "d = takeWhile isDigit (dropWhile isSpace (dropWhile isWordChar s))"
    by (auto simp: matchMdy_def Let_def split: if_splits)
  with padStart2_digits [of d]
    takeWhile_digits [of "dropWhile isSpace (dropWhile isWordChar s)"]
    monthOf_range [OF m(2)] r
  show ?thesis by blast
qed

lemma shape_my: "fromMy s = Some r \<Longrightarrow> dateShape r"
proof -
  assume a: "fromMy s = Some r"
  then obtain w y m where m: "matchMy s = Some (w, y)" "monthOf w = Some m"
    and r: "r = y @ ''-'' @ m @ ''-'' @ ''01''"
    by (auto simp: fromMy_def split: option.splits)
  from m(1) have "isYear y"
    by (auto simp: matchMy_def Let_def split: if_splits)
  moreover have "length ''01'' = 2 \<and> list_all isDigit ''01''" by (simp add: isDigit_def)
  ultimately show ?thesis
    using monthOf_range [OF m(2)] r by blast
qed

lemma shape_year: "isYear c \<Longrightarrow> dateShape (c @ ''-01-01'')"
proof -
  assume "isYear c"
  moreover have "''01'' \<in> snd ` set (MONTHS @ MONTHS_inherited)"
    by (simp add: MONTHS_def image_iff)
  moreover have "length ''01'' = 2 \<and> list_all isDigit ''01''" by (simp add: isDigit_def)
  moreover have "c @ ''-01-01'' = c @ ''-'' @ ''01'' @ ''-'' @ ''01''" by simp
  ultimately show ?thesis by blast
qed

lemma parseDate_shape: "parseDate x = Some r \<Longrightarrow> dateShape r"
proof -
  assume "parseDate x = Some r"
  then obtain c where "parseCleaned c = Some r"
    by (auto simp: parseDate_def split: option.splits if_splits)
  then show ?thesis
    using shape_dash [of c r] shape_dmy [of c r] shape_mdy [of c r] shape_my [of c r]
      shape_year [of c]
    by (auto simp: parseCleaned_def split: if_splits option.splits)
qed

lemma months_two_digits: "\<forall>m \<in> snd ` set MONTHS. length m = 2 \<and> list_all isDigit m"
  by (simp add: MONTHS_def isDigit_def)

text \<open>
  Claim C5. The example table holds (\<open>parseDate_table\<close>) and the patterns are tried in
  the stated order (\<open>parseCleaned_order\<close>), and every result has a four-digit year and a
  two-digit day (\<open>parseDate_shape\<close>), with a two-digit month whenever the month text is one
  of the table (\<open>months_two_digits\<close>). But not every result is a zero-padded ISO date:
  the month is looked up in an object literal, which also answers for the names
  it inherits. For the date text \<open>12 constructor 1982\<close> the third pattern matches, the
  lookup gives the inherited constructor function, which is truthy, and the result is
  the text below instead of \<open>null\<close>.
\<close>

theorem parseDate_inherited_month:
  "parseDate (Some ''12 constructor 1982'')
     = Some ''1982-function Object() { [native code] }-12''"
  by code_simp

section \<open>Facts about display names and derived events\<close>

lemma set_if: "set (if P then a else b) = (if P then set a else set b)"
  by (rule if_distrib)

lemma splitOn_nonempty: "splitOn sep s \<noteq> []"
  by (induction s) (auto split: list.splits)

lemma splitOn_no_sep: "w \<in> set (splitOn sep s) \<Longrightarrow> sep \<notin> set w"
proof (induction s arbitrary: w)
  case Nil
  then show ?case by simp
next
  case (Cons c s)
  then show ?case
    using splitOn_nonempty [of sep s]
    by (cases "splitOn sep s") (auto split: if_splits)
qed

lemma splitOn_append_sep:
  "sep \<notin> set w \<Longrightarrow> splitOn sep (w @ sep # s) = w # splitOn sep s"
  by (induction w) auto

lemma splitOn_single: "sep \<notin> set w \<Longrightarrow> splitOn sep w = [w]"
  by (induction w) auto

lemma splitOn_joinWith:
  "ws \<noteq> [] \<Longrightarrow> \<forall>w \<in> set ws. sep \<notin> set w \<Longrightarrow> splitOn sep (joinWith [sep] ws) = ws"
proof (induction "[sep]" ws rule: joinWith.induct)
  case 1
  then show ?case by simp
next
  case (2 w)
  then show ?case by (simp add: splitOn_single)
next
  case (3 w v ws)
  then show ?case by (simp add: splitOn_append_sep)
qed

lemma length_letters:
  "length (lowerChars @ lowerLatin1) = length (upperChars @ upperLatin1)"
  by (simp add: lowerChars_def lowerLatin1_def upperChars_def upperLatin1_def)

lemma capitals_not_small:
  "d \<in> set (upperChars @ upperLatin1) \<Longrightarrow> d \<notin> set (lowerChars @ lowerLatin1) \<and> d \<noteq> CHR 0xDF \<and> d \<noteq> CHR '' ''"
  by (auto simp: lowerChars_def lowerLatin1_def upperChars_def upperLatin1_def)

lemma toUpperChar_cases:
  "(c = CHR 0xDF \<and> toUpperChar c = ''SS'')
   \<or> (\<exists>d \<in> set (upperChars @ upperLatin1). toUpperChar c = [d])
   \<or> (c \<notin> set (lowerChars @ lowerLatin1) \<and> c \<noteq> CHR 0xDF \<and> toUpperChar c = [c])"
proof (cases "c = CHR 0xDF")
  case True
  then show ?thesis by (simp add: toUpperChar_def)
next
  case False
  show ?thesis
  proof (cases "map_of (zip (lowerChars @ lowerLatin1) (upperChars @ upperLatin1)) c")
    case None
    then have "c \<notin> set (lowerChars @ lowerLatin1)"
      using length_letters map_of_zip_is_None by metis
    with False None show ?thesis by (simp add: toUpperChar_def)
  next
    case (Some d)
    then have "d \<in> set (upperChars @ upperLatin1)"
      by (meson map_of_SomeD set_zip_rightD)
    with False Some show ?thesis by (auto simp: toUpperChar_def)
  qed
qed

lemma toUpperChar_fixed:
  "c \<notin> set (lowerChars @ lowerLatin1) \<Longrightarrow> c \<noteq> CHR 0xDF \<Longrightarrow> toUpperChar c = [c]"
  using toUpperChar_cases [of c] capitals_not_small length_letters
  by (metis map_of_zip_is_None option.simps(4) toUpperChar_def)

lemma toUpperChar_nonempty: "toUpperChar c \<noteq> []"
  using toUpperChar_cases [of c] by auto

lemma toUpperChar_space: "CHR '' '' \<in> set (toUpperChar c) \<Longrightarrow> c = CHR '' ''"
proof -
  assume a: "CHR '' '' \<in> set (toUpperChar c)"
  from toUpperChar_cases [of c] show ?thesis
  proof (elim disjE conjE bexE)
    assume "toUpperChar c = ''SS''"
    with a show ?thesis by simp
  next
    fix d assume "d \<in> set (upperChars @ upperLatin1)" "toUpperChar c = [d]"
    with a capitals_not_small [of d] show ?thesis by simp
  next
    assume "toUpperChar c = [c]"
    with a show ?thesis by simp
  qed
qed

lemma capitalize_Nil: "capitalize [] = []"
  by (simp add: capitalize_def toUpperCase_def)

lemma capitalize_Cons: "capitalize (c # cs) = toUpperChar c @ cs"
  by (simp add: capitalize_def toUpperCase_def)

lemma capitalize_no_space: "CHR '' '' \<notin> set w \<Longrightarrow> CHR '' '' \<notin> set (capitalize w)"
  using toUpperChar_space by (cases w) (auto simp: capitalize_Nil capitalize_Cons)

lemma words_of_displayName:
  "splitOn CHR '' '' (displayNameOf n) = map capitalize (splitOn CHR '' '' n)"
proof -
  have "\<forall>w \<in> set (map capitalize (splitOn CHR '' '' n)). CHR '' '' \<notin> set w"
    using splitOn_no_sep capitalize_no_space by fastforce
  moreover have "map capitalize (splitOn CHR '' '' n) \<noteq> []"
    by (simp add: splitOn_nonempty)
  ultimately show ?thesis
    unfolding displayNameOf_def using splitOn_joinWith [of _ "CHR '' ''"] by simp
qed

lemma hd_capitalize:
  "w \<noteq> [] \<Longrightarrow> hd (capitalize w) \<notin> set (lowerChars @ lowerLatin1) \<and> hd (capitalize w) \<noteq> CHR 0xDF"
proof (cases w)
  case Nil
  assume "w \<noteq> []"
  with Nil show ?thesis by simp
next
  case (Cons c cs)
  have s: "CHR ''S'' \<in> set (upperChars @ upperLatin1)" by (simp add: upperChars_def)
  show ?thesis
    using toUpperChar_cases [of c] capitals_not_small s
    by (auto simp: Cons capitalize_Cons)
qed

lemma capitalize_capitalize: "capitalize (capitalize w) = capitalize w"
proof (cases w)
  case Nil
  then show ?thesis by (simp add: capitalize_Nil)
next
  case (Cons c cs)
  have s: "toUpperChar CHR ''S'' = ''S''" by (simp add: toUpperChar_def lowerChars_def lowerLatin1_def upperChars_def upperLatin1_def)
  from toUpperChar_cases [of c] show ?thesis
  proof (elim disjE conjE bexE)
    assume "c = CHR 0xDF" "toUpperChar c = ''SS''"
    then show ?thesis using s by (simp add: Cons capitalize_Cons)
  next
    fix d assume "d \<in> set (upperChars @ upperLatin1)" "toUpperChar c = [d]"
    then show ?thesis
      using capitals_not_small [of d] toUpperChar_fixed [of d]
      by (simp add: Cons capitalize_Cons)
  next
    assume "c \<notin> set (lowerChars @ lowerLatin1)" "c \<noteq> CHR 0xDF" "toUpperChar c = [c]"
    then show ?thesis by (simp add: Cons capitalize_Cons)
  qed
qed

lemma displayNameOf_idem: "displayNameOf (displayNameOf n) = displayNameOf n"
proof -
  have "displayNameOf (displayNameOf n)
          = joinWith '' '' (map capitalize (splitOn CHR '' '' (displayNameOf n)))"
    by (simp add: displayNameOf_def)
  also have "\<dots> = joinWith '' '' (map capitalize (map capitalize (splitOn CHR '' '' n)))"
    by (simp only: words_of_displayName)
  also have "\<dots> = displayNameOf n"
    by (simp add: displayNameOf_def capitalize_capitalize comp_def)
  finally show ?thesis .
qed

lemma birth_iff:
  "(Birth \<in> ev_type ` set (birthEvents n indi)) =
   (parseDate (date (birth indi)) \<noteq> None \<and> truthy (place (birth indi))
    \<and> place (birth indi) \<noteq> Some ''?'')"
  using parseDate_nonempty [of "date (birth indi)"]
  by (cases "parseDate (date (birth indi))"; cases "place (birth indi)")
     (auto simp: birthEvents_def truthy_def set_if)

lemma death_iff:
  "(Death \<in> ev_type ` set (deathEvents n indi)) =
   (parseDate (date (death indi)) \<noteq> None \<and> truthy (place (death indi))
    \<and> place (death indi) \<noteq> Some ''?'')"
  using parseDate_nonempty [of "date (death indi)"]
  by (cases "parseDate (date (death indi))"; cases "place (death indi)")
     (auto simp: deathEvents_def truthy_def set_if)

lemma burial_iff:
  "(Burial \<in> ev_type ` set (burialEvents n indi)) =
   (truthy (burial indi) \<and> burial indi \<noteq> Some ''?'' \<and>
    (parseDate (date (death indi)) \<noteq> None \<or> parseDate (date (birth indi)) \<noteq> None))"
  using parseDate_nonempty [of "date (death indi)"] parseDate_nonempty [of "date (birth indi)"]
  by (cases "parseDate (date (death indi))"; cases "parseDate (date (birth indi))";
      cases "burial indi")
     (auto simp: burialEvents_def truthy_def orElse_def set_if)

lemma types_birth: "e \<in> set (birthEvents n indi) \<Longrightarrow> ev_type e = Birth"
  by (cases "parseDate (date (birth indi))"; cases "place (birth indi)")
     (auto simp: birthEvents_def set_if split: if_splits)

lemma types_death: "e \<in> set (deathEvents n indi) \<Longrightarrow> ev_type e = Death"
  by (cases "parseDate (date (death indi))"; cases "place (death indi)")
     (auto simp: deathEvents_def set_if split: if_splits)

lemma types_burial: "e \<in> set (burialEvents n indi) \<Longrightarrow> ev_type e = Burial"
  by (cases "orElse (parseDate (date (death indi))) (parseDate (date (birth indi)))";
      cases "burial indi")
     (auto simp: burialEvents_def set_if split: if_splits)

lemma burial_fields:
  "e \<in> set (burialEvents n indi) \<Longrightarrow>
     ev_category e = ''death'' \<and> Some (ev_place e) = burial indi \<and>
     Some (ev_date e) = (case parseDate (date (death indi)) of Some d \<Rightarrow> Some d
                         | None \<Rightarrow> parseDate (date (birth indi)))"
  using parseDate_nonempty [of "date (death indi)"]
  by (cases "parseDate (date (death indi))"; cases "parseDate (date (birth indi))";
      cases "burial indi")
     (auto simp: burialEvents_def orElse_def truthy_def set_if split: if_splits)

lemma events_of_parse:
  "events (parseGedcomFull content) = concat (map eventsOf (fst (parseRecords content)))"
  by (simp add: parseGedcomFull_def split: prod.splits)

lemma eventsOf_named:
  "nameOf indi \<noteq> [] \<Longrightarrow>
     eventsOf indi = birthEvents (displayNameOf (nameOf indi)) indi
                     @ deathEvents (displayNameOf (nameOf indi)) indi
                     @ burialEvents (displayNameOf (nameOf indi)) indi"
  by (simp add: eventsOf_def Let_def)

lemma birth_in_eventsOf:
  assumes "nameOf indi \<noteq> []"
  shows "(Birth \<in> ev_type ` set (eventsOf indi)) =
           (parseDate (date (birth indi)) \<noteq> None \<and> truthy (place (birth indi))
            \<and> place (birth indi) \<noteq> Some ''?'')"
proof -
  let ?n = "displayNameOf (nameOf indi)"
  have "Birth \<in> ev_type ` set (eventsOf indi) \<longleftrightarrow> Birth \<in> ev_type ` set (birthEvents ?n indi)"
    using types_death [of _ ?n indi] types_burial [of _ ?n indi]
    by (auto simp: eventsOf_named [OF assms] image_Un)
  with birth_iff [of ?n indi] show ?thesis by simp
qed

lemma death_in_eventsOf:
  assumes "nameOf indi \<noteq> []"
  shows "(Death \<in> ev_type ` set (eventsOf indi)) =
           (parseDate (date (death indi)) \<noteq> None \<and> truthy (place (death indi))
            \<and> place (death indi) \<noteq> Some ''?'')"
proof -
  let ?n = "displayNameOf (nameOf indi)"
  have "Death \<in> ev_type ` set (eventsOf indi) \<longleftrightarrow> Death \<in> ev_type ` set (deathEvents ?n indi)"
    using types_birth [of _ ?n indi] types_burial [of _ ?n indi]
    by (auto simp: eventsOf_named [OF assms] image_Un)
  with death_iff [of ?n indi] show ?thesis by simp
qed

lemma burial_in_eventsOf:
  assumes "nameOf indi \<noteq> []"
  shows "(Burial \<in> ev_type ` set (eventsOf indi)) =
           (truthy (burial indi) \<and> burial indi \<noteq> Some ''?'' \<and>
            (parseDate (date (death indi)) \<noteq> None \<or> parseDate (date (birth indi)) \<noteq> None))"
proof -
  let ?n = "displayNameOf (nameOf indi)"
  have "Burial \<in> ev_type ` set (eventsOf indi) \<longleftrightarrow> Burial \<in> ev_type ` set (burialEvents ?n indi)"
    using types_birth [of _ ?n indi] types_death [of _ ?n indi]
    by (auto simp: eventsOf_named [OF assms] image_Un)
  with burial_iff [of ?n indi] show ?thesis by simp
qed

text \<open>
  A place can be the empty string: the text after \<open>PLAC\<close> is trimmed, and it may be
  nothing but spaces. Such a place is not \<open>null\<close> and not \<open>?\<close>, and it gives no event.
\<close>

lemma empty_place_parsed:
  "map (\<lambda>i. (givn i, place (birth i)))
       (fst (parseRecords (''0 @I1@ INDI'' @ LF @ ''1 NAME John'' @ LF @ ''2 GIVN John'' @ LF
                           @ ''1 BIRT'' @ LF @ ''2 DATE 1900'' @ LF @ ''2 PLAC   '')))
     = [(''John'', Some [])]
   \<and> events (parseGedcomFull (''0 @I1@ INDI'' @ LF @ ''1 NAME John'' @ LF @ ''2 GIVN John'' @ LF
                           @ ''1 BIRT'' @ LF @ ''2 DATE 1900'' @ LF @ ''2 PLAC   '')) = []"
  by code_simp

text \<open>
  Claim C1, as stated, fails: a person whose name stands on the \<open>NAME\<close> line alone has
  no name part, and the loop passes over it. Its birth date normalises and its birth
  place is a real place, yet no event is derived.
\<close>

theorem no_event_without_name_part:
  "fst (parseRecords gedcomNameLineOnly) =
     [(newIndi ''@I1@'')\<lparr>birth := \<lparr>date = Some ''12 OCT 1982'',
                                    place = Some ''Sydney, Australia''\<rparr>\<rparr>]
   \<and> parseDate (Some ''12 OCT 1982'') = Some ''1982-10-12''
   \<and> events (parseGedcomFull gedcomNameLineOnly) = []"
  by code_simp

text \<open>
  Claim C1, amended. The events of the parser's output are those of its individuals,
  in order. An individual with no name part has no event. For an individual with a
  name part, a birth event exists if and only if the birth date normalises and the
  birth place is neither \<open>null\<close>, nor empty, nor the placeholder \<open>?\<close>; the same holds
  of the death event, with the death date and the death place; and a burial event
  exists if and only if the burial place is neither \<open>null\<close>, nor empty, nor \<open>?\<close>, and
  the death date or the birth date normalises.
\<close>

theorem event_iff_date_and_place:
  "events (parseGedcomFull content) = concat (map eventsOf (fst (parseRecords content)))
   \<and> (nameOf indi = [] \<longrightarrow> eventsOf indi = [])
   \<and> (nameOf indi \<noteq> [] \<longrightarrow>
        (Birth \<in> ev_type ` set (eventsOf indi)) =
          (parseDate (date (birth indi)) \<noteq> None \<and> truthy (place (birth indi))
           \<and> place (birth indi) \<noteq> Some ''?'')
      \<and> (Death \<in> ev_type ` set (eventsOf indi)) =
          (parseDate (date (death indi)) \<noteq> None \<and> truthy (place (death indi))
           \<and> place (death indi) \<noteq> Some ''?'')
      \<and> (Burial \<in> ev_type ` set (eventsOf indi)) =
          (truthy (burial indi) \<and> burial indi \<noteq> Some ''?'' \<and>
           (parseDate (date (death indi)) \<noteq> None \<or> parseDate (date (birth indi)) \<noteq> None)))"
proof -
  have "nameOf indi = [] \<longrightarrow> eventsOf indi = []"
    by (simp add: eventsOf_def)
  then show ?thesis
    using events_of_parse [of content] birth_in_eventsOf [of indi] death_in_eventsOf [of indi]
      burial_in_eventsOf [of indi]
    by blast
qed

theorem event_iff_date_and_place_witness:
  "nameOf johnBorn \<noteq> []
   \<and> Birth \<in> ev_type ` set (eventsOf johnBorn)
   \<and> Death \<notin> ev_type ` set (eventsOf johnBorn)"
proof -
  have n: "nameOf johnBorn \<noteq> []" by code_simp
  have b: "parseDate (date (birth johnBorn)) \<noteq> None \<and> truthy (place (birth johnBorn))
           \<and> place (birth johnBorn) \<noteq> Some ''?''"
    by code_simp
  have d: "place (death johnBorn) = Some ''?''" by code_simp
  show ?thesis
    using event_iff_date_and_place [of "[]" johnBorn] n b d by simp
qed

text \<open>
  Claim C10, as stated, fails for the same reason: the person below has a burial place
  and a death date that normalises, and no burial event is derived, since the person has
  no name part.
\<close>

theorem no_burial_without_name_part:
  "fst (parseRecords gedcomBurialNoName) =
     [(newIndi ''@I1@'')\<lparr>death := \<lparr>date = Some ''1900'', place = None\<rparr>,
                         burial := Some ''Highgate Cemetery, London''\<rparr>]
   \<and> parseDate (Some ''1900'') = Some ''1900-01-01''
   \<and> events (parseGedcomFull gedcomBurialNoName) = []"
  by code_simp

text \<open>
  Claim C10, amended. For an individual with a name part, a burial event exists if and
  only if the burial place is neither \<open>null\<close>, nor empty, nor \<open>?\<close>, and the death date
  or the birth date normalises. Every burial event has the category \<open>death\<close>, the
  burial place as its place, and as its date the normalised death date when there is
  one, the normalised birth date otherwise.
\<close>

theorem burial_event_borrows_date:
  "nameOf indi \<noteq> [] \<longrightarrow>
     ((Burial \<in> ev_type ` set (eventsOf indi)) =
        (truthy (burial indi) \<and> burial indi \<noteq> Some ''?'' \<and>
         (parseDate (date (death indi)) \<noteq> None \<or> parseDate (date (birth indi)) \<noteq> None)))
     \<and> (\<forall>e \<in> set (eventsOf indi). ev_type e = Burial \<longrightarrow>
           ev_category e = ''death'' \<and> Some (ev_place e) = burial indi \<and>
           Some (ev_date e) = (case parseDate (date (death indi)) of Some d \<Rightarrow> Some d
                               | None \<Rightarrow> parseDate (date (birth indi))))"
proof
  assume n: "nameOf indi \<noteq> []"
  let ?n = "displayNameOf (nameOf indi)"
  have b: "e \<in> set (burialEvents ?n indi)"
    if "e \<in> set (eventsOf indi)" "ev_type e = Burial" for e
    using that types_birth [of e ?n indi] types_death [of e ?n indi]
    by (auto simp: eventsOf_named [OF n])
  show "((Burial \<in> ev_type ` set (eventsOf indi)) =
        (truthy (burial indi) \<and> burial indi \<noteq> Some ''?'' \<and>
         (parseDate (date (death indi)) \<noteq> None \<or> parseDate (date (birth indi)) \<noteq> None)))
     \<and> (\<forall>e \<in> set (eventsOf indi). ev_type e = Burial \<longrightarrow>
           ev_category e = ''death'' \<and> Some (ev_place e) = burial indi \<and>
           Some (ev_date e) = (case parseDate (date (death indi)) of Some d \<Rightarrow> Some d
                               | None \<Rightarrow> parseDate (date (birth indi))))"
    using b burial_in_eventsOf [OF n] burial_fields [of _ ?n indi] by blast
qed

theorem burial_event_borrows_date_witness:
  "nameOf maryBuried \<noteq> []
   \<and> map ev_type (eventsOf maryBuried) = [Burial]
   \<and> map ev_date (eventsOf maryBuried) = [''1756-01-01'']
   \<and> map ev_category (eventsOf maryBuried) = [''death'']"
proof -
  have n: "nameOf maryBuried \<noteq> []" by code_simp
  have e: "map ev_type (eventsOf maryBuried) = [Burial]" by code_simp
  have d: "parseDate (date (death maryBuried)) = None
           \<and> parseDate (date (birth maryBuried)) = Some ''1756-01-01''"
    by code_simp
  from e obtain ev where ev: "eventsOf maryBuried = [ev]" "ev_type ev = Burial"
    by auto
  from burial_event_borrows_date [of maryBuried] n ev d
  have "ev_category ev = ''death'' \<and> Some (ev_date ev) = Some ''1756-01-01''"
    by simp
  with n e ev show ?thesis by simp
qed

text \<open>
  Claim C8, as stated, fails: the first letter of each word is put in upper case and
  nothing is put in lower case, so \<open>john\<close> and \<open>SMITH\<close> give \<open>John SMITH\<close>.
\<close>

theorem displayName_john_SMITH:
  "map p_name (people (parseGedcomFull gedcomJohnSmith)) = [''John SMITH'']
   \<and> ''John SMITH'' \<noteq> ''John Smith''"
  by code_simp

text \<open>
  Claim C8, amended. The display name is a function of the given name and the surname
  alone: of the two, joined by a space and trimmed, each space-separated word has its
  first character replaced by its upper-case form (sharp s by \<open>SS\<close>) and every other
  character left as it was. So no word of a display name begins with a small letter,
  normalising a display name again changes nothing, and \<open>john\<close> with \<open>SMITH\<close> gives
  \<open>John SMITH\<close>. The statement is for names none of whose words begins with U+00B5 or
  U+00FF, whose capitals are no code units of the model.
\<close>

theorem displayName_capitalizes_words:
  assumes "\<forall>w \<in> set (splitOn CHR '' '' (nameOf indi)).
             take 1 w \<noteq> [CHR 0xB5] \<and> take 1 w \<noteq> [CHR 0xFF]"
  shows "(givn other = givn indi \<and> surn other = surn indi
            \<longrightarrow> p_name (personOf other) = p_name (personOf indi))
       \<and> splitOn CHR '' '' (p_name (personOf indi))
           = map (\<lambda>w. toUpperCase (take 1 w) @ drop 1 w) (splitOn CHR '' '' (nameOf indi))
       \<and> (\<forall>w \<in> set (splitOn CHR '' '' (p_name (personOf indi))).
             w \<noteq> [] \<longrightarrow> hd w \<notin> set (lowerChars @ lowerLatin1) \<and> hd w \<noteq> CHR 0xDF)
       \<and> displayNameOf (p_name (personOf indi)) = p_name (personOf indi)
       \<and> p_name (personOf (indi\<lparr>givn := ''john'', surn := ''SMITH''\<rparr>)) = ''John SMITH''"
proof -
  have det: "givn other = givn indi \<and> surn other = surn indi
          \<longrightarrow> p_name (personOf other) = p_name (personOf indi)"
    by (simp add: personOf_def nameOf_def)
  have w: "splitOn CHR '' '' (p_name (personOf indi))
             = map capitalize (splitOn CHR '' '' (nameOf indi))"
    by (simp add: personOf_def words_of_displayName)
  have "capitalize = (\<lambda>w. toUpperCase (take 1 w) @ drop 1 w)"
    by (rule ext) (simp add: capitalize_def)
  with w have wds: "splitOn CHR '' '' (p_name (personOf indi))
           = map (\<lambda>w. toUpperCase (take 1 w) @ drop 1 w) (splitOn CHR '' '' (nameOf indi))"
    by simp
  have cap: "\<forall>w \<in> set (splitOn CHR '' '' (p_name (personOf indi))).
           w \<noteq> [] \<longrightarrow> hd w \<notin> set (lowerChars @ lowerLatin1) \<and> hd w \<noteq> CHR 0xDF"
  proof (intro ballI impI)
    fix v assume v: "v \<in> set (splitOn CHR '' '' (p_name (personOf indi)))" "v \<noteq> []"
    with w obtain u where u: "v = capitalize u" by auto
    with v(2) have "u \<noteq> []" by (auto simp: capitalize_Nil)
    with u show "hd v \<notin> set (lowerChars @ lowerLatin1) \<and> hd v \<noteq> CHR 0xDF"
      using hd_capitalize [of u] by simp
  qed
  have idem: "displayNameOf (p_name (personOf indi)) = p_name (personOf indi)"
    by (simp add: personOf_def displayNameOf_idem)
  have "displayNameOf (trim ''john SMITH'') = ''John SMITH''" by code_simp
  then have john: "p_name (personOf (indi\<lparr>givn := ''john'', surn := ''SMITH''\<rparr>)) = ''John SMITH''"
    by (simp add: personOf_def nameOf_def)
  from det wds cap idem john show ?thesis by blast
qed

theorem displayName_capitalizes_words_witness:
  "splitOn CHR '' '' (nameOf emileZOLA) = [[CHR 0xE9] @ ''mile'', ''ZOLA'']
   \<and> splitOn CHR '' '' (p_name (personOf emileZOLA)) = [[CHR 0xC9] @ ''mile'', ''ZOLA'']
   \<and> p_name (personOf (emileZOLA\<lparr>sex := None\<rparr>)) = p_name (personOf emileZOLA)
   \<and> CHR 0xC9 \<notin> set (lowerChars @ lowerLatin1)
   \<and> displayNameOf (p_name (personOf emileZOLA)) = p_name (personOf emileZOLA)"
proof -
  have n: "splitOn CHR '' '' (nameOf emileZOLA) = [[CHR 0xE9] @ ''mile'', ''ZOLA'']"
    by code_simp
  have h: "\<forall>w \<in> set (splitOn CHR '' '' (nameOf emileZOLA)).
             take 1 w \<noteq> [CHR 0xB5] \<and> take 1 w \<noteq> [CHR 0xFF]"
    by (simp add: n)
  have u: "map (\<lambda>w. toUpperCase (take 1 w) @ drop 1 w) [[CHR 0xE9] @ ''mile'', ''ZOLA'']
             = [[CHR 0xC9] @ ''mile'', ''ZOLA'']"
    by code_simp
  have g: "givn (emileZOLA\<lparr>sex := None\<rparr>) = givn emileZOLA
           \<and> surn (emileZOLA\<lparr>sex := None\<rparr>) = surn emileZOLA"
    by simp
  note t = displayName_capitalizes_words [OF h, of "emileZOLA\<lparr>sex := None\<rparr>"]
  from t n u have w: "splitOn CHR '' '' (p_name (personOf emileZOLA))
                        = [[CHR 0xC9] @ ''mile'', ''ZOLA'']"
    by simp
  from t have "\<forall>w \<in> set (splitOn CHR '' '' (p_name (personOf emileZOLA))).
                 w \<noteq> [] \<longrightarrow> hd w \<notin> set (lowerChars @ lowerLatin1) \<and> hd w \<noteq> CHR 0xDF"
    by blast
  then have c: "CHR 0xC9 \<notin> set (lowerChars @ lowerLatin1)"
    unfolding w by simp
  from t g n w c show ?thesis by simp
qed

section \<open>Facts about the qualifier of a date\<close>

lemma toLowerChar_range: "toLowerChar c = d \<Longrightarrow> d = c \<or> d \<in> set lowerChars"
proof (cases "map_of (zip upperChars lowerChars) c")
  case None
  assume "toLowerChar c = d"
  with None show ?thesis by (simp add: toLowerChar_def)
next
  case (Some e)
  assume a: "toLowerChar c = d"
  from Some have "e \<in> set lowerChars"
    by (meson map_of_SomeD set_zip_rightD)
  with a Some show ?thesis by (simp add: toLowerChar_def)
qed

lemma toLowerChar_dot: "toLowerChar c = CHR ''.'' \<Longrightarrow> c = CHR ''.''"
  using toLowerChar_range [of c "CHR ''.''"] by (auto simp: lowerChars_def)

lemma startsWithCI_exact: "toLowerCase q = lit \<Longrightarrow> startsWithCI lit (q @ r)"
  by (auto simp: startsWithCI_def toLowerCase_def)

lemma startsWithCI_prefix3:
  assumes "startsWithCI lit s" "3 \<le> length lit"
  shows "take 3 (toLowerCase s) = take 3 lit"
proof -
  from assms have "toLowerCase (take (length lit) s) = lit"
    by (simp add: startsWithCI_def)
  then have "take 3 (toLowerCase (take (length lit) s)) = take 3 lit" by simp
  with assms(2) show ?thesis
    by (simp add: toLowerCase_def take_map min_def)
qed

lemma mismatch:
  assumes "toLowerCase q = t" "3 \<le> length t" "3 \<le> length lit" "take 3 lit \<noteq> take 3 t"
  shows "\<not> startsWithCI lit (q @ r)"
proof
  assume "startsWithCI lit (q @ r)"
  from startsWithCI_prefix3 [OF this assms(3)]
  have "take 3 (toLowerCase q @ toLowerCase r) = take 3 lit"
    by (simp add: toLowerCase_def)
  with assms(1,2) have "take 3 t = take 3 lit" by simp
  with assms(4) show False by simp
qed

lemma length_lower: "toLowerCase q = t \<Longrightarrow> length q = length t"
  by (auto simp: toLowerCase_def)

lemma firstAlt_abt:
  assumes "toLowerCase q = ''abt''"
  shows "firstAlt qualifierAlts (q @ r) = Some (if r \<noteq> [] \<and> hd r = CHR ''.'' then tl r else r)"
  using startsWithCI_exact [OF assms, of r] length_lower [OF assms]
  by (simp add: qualifierAlts_def)

lemma firstAlt_about:
  assumes "toLowerCase q = ''about''"
  shows "firstAlt qualifierAlts (q @ r) = Some r"
  using startsWithCI_exact [OF assms, of r] length_lower [OF assms]
    mismatch [OF assms, of "''abt''" r]
  by (simp add: qualifierAlts_def)

lemma firstAlt_circa:
  assumes "toLowerCase q = ''circa''"
  shows "firstAlt qualifierAlts (q @ r) = Some r"
  using startsWithCI_exact [OF assms, of r] length_lower [OF assms]
    mismatch [OF assms, of "''abt''" r] mismatch [OF assms, of "''about''" r]
  by (simp add: qualifierAlts_def)

lemma firstAlt_bef:
  assumes "toLowerCase q = ''bef''"
  shows "firstAlt qualifierAlts (q @ r) = Some (if r \<noteq> [] \<and> hd r = CHR ''.'' then tl r else r)"
  using startsWithCI_exact [OF assms, of r] length_lower [OF assms]
    mismatch [OF assms, of "''abt''" r] mismatch [OF assms, of "''about''" r]
    mismatch [OF assms, of "''circa''" r]
  by (simp add: qualifierAlts_def)

lemma firstAlt_aft:
  assumes "toLowerCase q = ''aft''"
  shows "firstAlt qualifierAlts (q @ r) = Some (if r \<noteq> [] \<and> hd r = CHR ''.'' then tl r else r)"
  using startsWithCI_exact [OF assms, of r] length_lower [OF assms]
    mismatch [OF assms, of "''abt''" r] mismatch [OF assms, of "''about''" r]
    mismatch [OF assms, of "''circa''" r] mismatch [OF assms, of "''bef''" r]
    mismatch [OF assms, of "''before''" r]
  by (simp add: qualifierAlts_def)

lemma firstAlt_est:
  assumes "toLowerCase q = ''est''"
  shows "firstAlt qualifierAlts (q @ r) = Some (if r \<noteq> [] \<and> hd r = CHR ''.'' then tl r else r)"
  using startsWithCI_exact [OF assms, of r] length_lower [OF assms]
    mismatch [OF assms, of "''abt''" r] mismatch [OF assms, of "''about''" r]
    mismatch [OF assms, of "''circa''" r] mismatch [OF assms, of "''bef''" r]
    mismatch [OF assms, of "''before''" r] mismatch [OF assms, of "''aft''" r]
    mismatch [OF assms, of "''after''" r]
  by (simp add: qualifierAlts_def)

lemma firstAlt_cal:
  assumes "toLowerCase q = ''cal''"
  shows "firstAlt qualifierAlts (q @ r) = Some (if r \<noteq> [] \<and> hd r = CHR ''.'' then tl r else r)"
  using startsWithCI_exact [OF assms, of r] length_lower [OF assms]
    mismatch [OF assms, of "''abt''" r] mismatch [OF assms, of "''about''" r]
    mismatch [OF assms, of "''circa''" r] mismatch [OF assms, of "''bef''" r]
    mismatch [OF assms, of "''before''" r] mismatch [OF assms, of "''aft''" r]
    mismatch [OF assms, of "''after''" r] mismatch [OF assms, of "''est''" r]
  by (simp add: qualifierAlts_def)

lemma dotted:
  assumes "toLowerCase q = t @ ''.''"
  obtains q' where "q = q' @ ''.''" "toLowerCase q' = t"
proof -
  from assms have "q \<noteq> []" by (auto simp: toLowerCase_def)
  then obtain q' d where q: "q = q' @ [d]" by (metis rev_exhaust)
  with assms have "toLowerCase q' = t" "toLowerChar d = CHR ''.''"
    by (simp_all add: toLowerCase_def)
  with q toLowerChar_dot that show ?thesis by blast
qed

lemma firstAlt_qualifier:
  assumes "toLowerCase q \<in> set [''abt'', ''abt.'', ''about'', ''circa'', ''bef'', ''bef.'',
                                  ''aft'', ''aft.'', ''est'', ''est.'', ''cal'', ''cal.'']"
    and "take 1 r \<noteq> ''.''"
  shows "firstAlt qualifierAlts (q @ r) = Some r"
proof -
  have nd: "\<not> (r \<noteq> [] \<and> hd r = CHR ''.'')"
    using assms(2) by (cases r) auto
  have d: "firstAlt qualifierAlts (q @ r) = Some r"
    if "toLowerCase q = t @ ''.''"
      "\<And>q' r'. toLowerCase q' = t \<Longrightarrow> firstAlt qualifierAlts (q' @ r')
                  = Some (if r' \<noteq> [] \<and> hd r' = CHR ''.'' then tl r' else r')" for t
  proof -
    from that(1) obtain q' where q': "q = q' @ ''.''" "toLowerCase q' = t" by (rule dotted)
    from that(2) [OF q'(2), of "''.'' @ r"] q'(1) show ?thesis by simp
  qed
  from assms(1) consider "toLowerCase q = ''abt''" | "toLowerCase q = ''abt'' @ ''.''"
    | "toLowerCase q = ''about''" | "toLowerCase q = ''circa''"
    | "toLowerCase q = ''bef''" | "toLowerCase q = ''bef'' @ ''.''"
    | "toLowerCase q = ''aft''" | "toLowerCase q = ''aft'' @ ''.''"
    | "toLowerCase q = ''est''" | "toLowerCase q = ''est'' @ ''.''"
    | "toLowerCase q = ''cal''" | "toLowerCase q = ''cal'' @ ''.''"
    by auto
  then show ?thesis
  proof cases
    case 1 then show ?thesis using firstAlt_abt [of q r] nd by auto
  next
    case 2 then show ?thesis using d firstAlt_abt by blast
  next
    case 3 then show ?thesis using firstAlt_about by simp
  next
    case 4 then show ?thesis using firstAlt_circa by simp
  next
    case 5 then show ?thesis using firstAlt_bef [of q r] nd by auto
  next
    case 6 then show ?thesis using d firstAlt_bef by blast
  next
    case 7 then show ?thesis using firstAlt_aft [of q r] nd by auto
  next
    case 8 then show ?thesis using d firstAlt_aft by blast
  next
    case 9 then show ?thesis using firstAlt_est [of q r] nd by auto
  next
    case 10 then show ?thesis using d firstAlt_est by blast
  next
    case 11 then show ?thesis using firstAlt_cal [of q r] nd by auto
  next
    case 12 then show ?thesis using d firstAlt_cal by blast
  qed
qed

lemma trim_dropWhile: "trim (dropWhile isSpace s) = trim s"
  by (simp add: trim_def)

lemma dropWhile_spaces: "list_all isSpace w \<Longrightarrow> dropWhile isSpace (w @ s) = dropWhile isSpace s"
  by (induction w) auto

text \<open>
  Claim C9, as stated, fails: the words \<open>estimated\<close> and \<open>calculated\<close> are not among the
  alternatives of the pattern. Of \<open>estimated 1900\<close> only \<open>est\<close> is stripped, and what is
  left is no date.
\<close>

theorem full_words_not_stripped:
  "parseDate (Some ''estimated 1900'') = None
   \<and> parseDate (Some ''calculated 1900'') = None
   \<and> parseDate (Some ''1900'') = Some ''1900-01-01''"
  by code_simp

text \<open>
  The words \<open>before\<close> and \<open>after\<close> stand among the alternatives, after \<open>bef\<close> and \<open>aft\<close>,
  which match first: of \<open>after 1698\<close> only \<open>aft\<close> is stripped.
\<close>

lemma before_after_not_stripped:
  "stripQualifier ''after 1698'' = ''er 1698''"
  "parseDate (Some ''after 1698'') = None"
  "parseDate (Some ''before 1900'') = None"
  "parseDate (Some ''aft 1698'') = Some ''1698-01-01''"
  by code_simp+

text \<open>
  Claim C9, amended. Let \<open>q\<close> be, in any letter case, one of \<open>abt\<close>, \<open>about\<close>, \<open>circa\<close>,
  \<open>bef\<close>, \<open>aft\<close>, \<open>est\<close>, \<open>cal\<close>, or one of \<open>abt\<close>, \<open>bef\<close>, \<open>aft\<close>, \<open>est\<close>, \<open>cal\<close> followed
  by a dot. Let \<open>w\<close> be any run of spaces, and \<open>s\<close> a text that does not start with a
  qualifier of its own, where what follows \<open>q\<close> does not start with a dot. Then \<open>q\<close>
  followed by \<open>w\<close> and \<open>s\<close> normalises to what \<open>s\<close> alone normalises to.
\<close>

theorem qualifier_stripped:
  assumes "toLowerCase q \<in> set [''abt'', ''abt.'', ''about'', ''circa'', ''bef'', ''bef.'',
                                  ''aft'', ''aft.'', ''est'', ''est.'', ''cal'', ''cal.'']"
    and "list_all isSpace w"
    and "take 1 (w @ s) \<noteq> ''.''"
    and "stripQualifier s = s"
  shows "parseDate (Some (q @ w @ s)) = parseDate (Some s)"
proof -
  from assms(1) have q: "q \<noteq> []" by (auto simp: toLowerCase_def)
  from firstAlt_qualifier [OF assms(1,3)] assms(2)
  have "stripQualifier (q @ w @ s) = dropWhile isSpace s"
    by (simp add: stripQualifier_def dropWhile_spaces)
  with q have l: "parseDate (Some (q @ w @ s)) = parseCleaned (trim s)"
    by (simp add: parseDate_def trim_dropWhile)
  have "parseCleaned (trim []) = None" by (simp add: parseCleaned_def trim_def)
  with assms(4) have "parseDate (Some s) = parseCleaned (trim s)"
    by (simp add: parseDate_def)
  with l show ?thesis by simp
qed

theorem qualifier_stripped_witness:
  "toLowerCase ''Abt.'' \<in> set [''abt'', ''abt.'', ''about'', ''circa'', ''bef'', ''bef.'',
                                  ''aft'', ''aft.'', ''est'', ''est.'', ''cal'', ''cal.'']
   \<and> list_all isSpace '' '' \<and> take 1 ('' '' @ ''1756'') \<noteq> ''.''
   \<and> stripQualifier ''1756'' = ''1756''
   \<and> parseDate (Some (''Abt.'' @ '' '' @ ''1756'')) = parseDate (Some ''1756'')"
proof -
  have a: "toLowerCase ''Abt.'' \<in> set [''abt'', ''abt.'', ''about'', ''circa'', ''bef'', ''bef.'',
                                  ''aft'', ''aft.'', ''est'', ''est.'', ''cal'', ''cal.'']"
    by code_simp
  have b: "list_all isSpace '' ''" by code_simp
  have c: "take 1 ('' '' @ ''1756'') \<noteq> ''.''" by simp
  have d: "stripQualifier ''1756'' = ''1756''" by code_simp
  from qualifier_stripped [OF a b c d] a b c d show ?thesis by blast
qed

section \<open>Facts about the geocoding service\<close>

lemma geocode_unclean: "cleanPlaceName pl = None \<Longrightarrow> geocode svc st pl = (None, st)"
  by (simp add: geocode_def)

lemma geocode_cached:
  "cleanPlaceName pl = Some k \<Longrightarrow> cache st k = Some v \<Longrightarrow> geocode svc st pl = (v, st)"
  by (simp add: geocode_def)

lemma geocode_fresh:
  assumes "cleanPlaceName pl = Some k" "cache st k = None" "geocode svc st pl = (v, st')"
  shows "cache st' = (cache st)(k \<mapsto> v)"
  using assms
  by (auto simp: geocode_def lookup_def cacheSet_def
           split: response.splits option.splits)

lemma geocode_caches:
  assumes "cleanPlaceName pl = Some k" "geocode svc st pl = (v, st')"
  shows "cache st' k = Some v"
proof (cases "cache st k")
  case None
  from geocode_fresh [OF assms(1) None assms(2)] show ?thesis by simp
next
  case (Some x)
  from geocode_cached [OF assms(1) Some, of svc] assms(2) Some show ?thesis by simp
qed

lemma geocode_extends:
  assumes "geocode svc st pl = (v, st')"
  shows "cache st \<subseteq>\<^sub>m cache st'"
proof (cases "cleanPlaceName pl")
  case None
  with assms show ?thesis by (simp add: geocode_unclean)
next
  case (Some k)
  show ?thesis
  proof (cases "cache st k")
    case None
    from geocode_fresh [OF Some None assms] None show ?thesis
      by (auto simp: map_le_def dom_def)
  next
    case (Some x)
    from geocode_cached [OF \<open>cleanPlaceName pl = Some k\<close> Some, of svc] assms show ?thesis
      by simp
  qed
qed

lemma geocode_replay:
  assumes "geocode svc st pl = (v, st')" "cache st' \<subseteq>\<^sub>m cache st''"
  shows "geocode svc' st'' pl = (v, st'')"
proof (cases "cleanPlaceName pl")
  case None
  with assms(1) show ?thesis by (simp add: geocode_unclean)
next
  case (Some k)
  from geocode_caches [OF Some assms(1)] assms(2) have "cache st'' k = Some v"
    by (auto simp: map_le_def dom_def)
  with Some show ?thesis by (simp add: geocode_cached)
qed

lemma geocodeLoop_replay:
  assumes "geocodeLoop svc st acc ps = (r, st')"
  shows "cache st \<subseteq>\<^sub>m cache st' \<and>
         (\<exists>d. r = acc @ d \<and>
            (\<forall>st'' acc2. cache st' \<subseteq>\<^sub>m cache st'' \<longrightarrow>
               geocodeLoop svc' st'' acc2 ps = (acc2 @ d, st'')))"
  using assms
proof (induction ps arbitrary: st acc)
  case Nil
  then show ?case by simp
next
  case (Cons pl ps)
  obtain v s1 where g: "geocode svc st pl = (v, s1)" by (cases "geocode svc st pl")
  let ?acc = "\<lambda>a. case v of Some c \<Rightarrow> a @ [(pl, c)] | None \<Rightarrow> a"
  from Cons.prems g have l: "geocodeLoop svc s1 (?acc acc) ps = (r, st')"
    by (cases v) simp_all
  from Cons.IH [OF l] obtain d where
    le: "cache s1 \<subseteq>\<^sub>m cache st'" and r: "r = ?acc acc @ d" and
    rep: "\<And>st'' acc2. cache st' \<subseteq>\<^sub>m cache st'' \<Longrightarrow>
            geocodeLoop svc' st'' acc2 ps = (acc2 @ d, st'')"
    by blast
  have a: "cache st \<subseteq>\<^sub>m cache st'"
    using geocode_extends [OF g] le by (rule map_le_trans)
  have b: "r = acc @ ?acc [] @ d" using r by (cases v) simp_all
  have c: "geocodeLoop svc' st'' acc2 (pl # ps) = (acc2 @ ?acc [] @ d, st'')"
    if "cache st' \<subseteq>\<^sub>m cache st''" for st'' acc2
  proof -
    from le that have "cache s1 \<subseteq>\<^sub>m cache st''" by (rule map_le_trans)
    from geocode_replay [OF g this] have "geocode svc' st'' pl = (v, st'')" .
    with rep [OF that] show ?thesis by (cases v) simp_all
  qed
  from a b c show ?case by blast
qed

lemma geocodeLoop_dom:
  assumes "geocodeLoop svc st acc ps = (r, st')" "pl \<in> set ps" "cleanPlaceName pl = Some k"
  shows "k \<in> dom (cache st')"
  using assms
proof (induction ps arbitrary: st acc)
  case Nil
  then show ?case by simp
next
  case (Cons p ps)
  obtain v s1 where g: "geocode svc st p = (v, s1)" by (cases "geocode svc st p")
  let ?acc = "case v of Some c \<Rightarrow> acc @ [(p, c)] | None \<Rightarrow> acc"
  from Cons.prems(1) g have l: "geocodeLoop svc s1 ?acc ps = (r, st')"
    by (cases v) simp_all
  show ?case
  proof (cases "pl = p")
    case True
    with geocode_caches [OF _ g] Cons.prems(3) have "cache s1 k = Some v" by simp
    moreover from geocodeLoop_replay [OF l] have "cache s1 \<subseteq>\<^sub>m cache st'" by blast
    ultimately show ?thesis by (auto simp: map_le_def dom_def)
  next
    case False
    with Cons.prems(2) have "pl \<in> set ps" by simp
    from Cons.IH [OF l this Cons.prems(3)] show ?thesis .
  qed
qed

lemma set_uniqueOf: "set (uniqueOf xs) = set xs"
  by (induction xs) auto

lemma distinct_uniqueOf: "distinct (uniqueOf xs)"
  by (induction xs) (auto simp: set_uniqueOf)

lemma cleanPlaceName_Some: "cleanPlaceName pl = Some k \<Longrightarrow> pl \<noteq> [] \<and> pl \<noteq> ''?''"
  by (auto simp: cleanPlaceName_def split: if_splits)

lemma geocodeLoop_result:
  assumes "geocodeLoop svc st acc ps = (r, st')"
  shows "r = acc @ concat (map (\<lambda>pl. case fst (geocode svc' st' pl) of
                                        Some c \<Rightarrow> [(pl, c)] | None \<Rightarrow> []) ps)"
  using assms
proof (induction ps arbitrary: st acc)
  case Nil
  then show ?case by simp
next
  case (Cons p ps)
  obtain v s1 where g: "geocode svc st p = (v, s1)" by (cases "geocode svc st p")
  let ?acc = "case v of Some c \<Rightarrow> acc @ [(p, c)] | None \<Rightarrow> acc"
  from Cons.prems g have l: "geocodeLoop svc s1 ?acc ps = (r, st')"
    by (cases v) simp_all
  from geocodeLoop_replay [OF l] have "cache s1 \<subseteq>\<^sub>m cache st'" by blast
  from geocode_replay [OF g this] have "fst (geocode svc' st' p) = v" by simp
  with Cons.IH [OF l] show ?case by (cases v) simp_all
qed

lemma map_of_collected:
  "map_of (concat (map (\<lambda>pl. case f pl of Some c \<Rightarrow> [(pl, c)] | None \<Rightarrow> []) ps)) x
     = (if x \<in> set ps then f x else None)"
  by (induction ps) (auto split: option.splits)

lemma geocodeAll_lookup:
  assumes "geocodeAll svc st places = (g, st')"
  shows "map_of g x = (if x \<in> set places then fst (geocode svc' st' x) else None)"
proof -
  let ?ps = "uniqueOf (filter (\<lambda>p. p \<noteq> [] \<and> p \<noteq> ''?'') places)"
  from assms have "geocodeLoop svc st [] ?ps = (g, st')" by (simp add: geocodeAll_def)
  from geocodeLoop_result [OF this, of svc']
  have m: "map_of g x = (if x \<in> set ?ps then fst (geocode svc' st' x) else None)"
    by (simp add: map_of_collected)
  have "fst (geocode svc' st' x) = None" if "x = [] \<or> x = ''?''"
    using that by (auto simp: geocode_def cleanPlaceName_def)
  with m show ?thesis by (auto simp: set_uniqueOf)
qed

lemma loop_created:
  "l_created (foldl (importStep g) l evs) =
     l_created l @ concat (map (\<lambda>e. case map_of g (ev_place e) of
                                       Some c \<Rightarrow> [createWithSource e c] | None \<Rightarrow> []) evs)"
  by (induction evs arbitrary: l) (auto simp: importStep_def split: option.splits)

lemma loop_imported:
  "l_imported (foldl (importStep g) l evs) =
     l_imported l + length (filter (\<lambda>e. map_of g (ev_place e) \<noteq> None) evs)"
  by (induction evs arbitrary: l) (auto simp: importStep_def split: option.splits)

lemma loop_skipped:
  "l_skipped (foldl (importStep g) l evs) =
     l_skipped l + length (filter (\<lambda>e. map_of g (ev_place e) = None) evs)"
  by (induction evs arbitrary: l) (auto simp: importStep_def split: option.splits)

lemma loop_people_set:
  "set (l_peopleSet (foldl (importStep g) l evs)) =
     set (l_peopleSet l) \<union> ev_name ` {e \<in> set evs. map_of g (ev_place e) \<noteq> None}"
  by (induction evs arbitrary: l) (auto simp: importStep_def setAdd_def split: option.splits)

lemma loop_people_distinct:
  "distinct (l_peopleSet l) \<Longrightarrow> distinct (l_peopleSet (foldl (importStep g) l evs))"
  by (induction evs arbitrary: l) (auto simp: importStep_def setAdd_def split: option.splits)

lemma event_place_ok:
  "e \<in> set (eventsOf indi) \<Longrightarrow> ev_place e \<noteq> [] \<and> ev_place e \<noteq> ''?''"
proof -
  have b: "ev_place e \<noteq> [] \<and> ev_place e \<noteq> ''?''" if "e \<in> set (birthEvents n indi)" for n
    using that
    by (cases "parseDate (date (birth indi))"; cases "place (birth indi)")
       (auto simp: birthEvents_def set_if split: if_splits)
  have d: "ev_place e \<noteq> [] \<and> ev_place e \<noteq> ''?''" if "e \<in> set (deathEvents n indi)" for n
    using that
    by (cases "parseDate (date (death indi))"; cases "place (death indi)")
       (auto simp: deathEvents_def set_if split: if_splits)
  have u: "ev_place e \<noteq> [] \<and> ev_place e \<noteq> ''?''" if "e \<in> set (burialEvents n indi)" for n
    using that
    by (cases "orElse (parseDate (date (death indi))) (parseDate (date (birth indi)))";
        cases "burial indi")
       (auto simp: burialEvents_def set_if split: if_splits)
  assume "e \<in> set (eventsOf indi)"
  with b d u show ?thesis
    by (cases "nameOf indi = []") (auto simp: eventsOf_def Let_def)
qed

lemma no_birth_at_placeholder:
  "place (birth indi) = Some ''?'' \<Longrightarrow> Birth \<notin> ev_type ` set (eventsOf indi)"
  using birth_in_eventsOf [of indi] by (cases "nameOf indi = []") (simp_all add: eventsOf_def)

text \<open>
  Claim C6. A second call of \<open>geocodeAll\<close> with the same places, on the state that the
  first call left, returns the same results and leaves the state as it is: the cache is
  unchanged and no query is added to the list of requests, whatever the service would
  answer. After the first call the normalised form of every place of the list is a key
  of the cache. A call of \<open>geocode\<close> only adds to the cache. After a call of \<open>geocode\<close>
  for a place with a normalised form, the outcome, coordinates or \<open>null\<close>, is cached
  under that form, and in every later state, whose cache extends this one, the same
  call answers from the cache and sends nothing.
\<close>

theorem geocoding_cache_idempotent:
  "(geocodeAll svc st places = (r1, st1) \<longrightarrow>
      geocodeAll svc' st1 places = (r1, st1)
      \<and> (\<forall>pl \<in> set places. \<forall>k. cleanPlaceName pl = Some k \<longrightarrow> k \<in> dom (cache st1)))
   \<and> (geocode svc st pl = (v, st') \<longrightarrow> cache st \<subseteq>\<^sub>m cache st')
   \<and> (geocode svc st pl = (v, st') \<and> cleanPlaceName pl = Some k \<longrightarrow>
        cache st' k = Some v
        \<and> (\<forall>st''. cache st' \<subseteq>\<^sub>m cache st'' \<longrightarrow> geocode svc' st'' pl = (v, st'')))"
proof -
  let ?ps = "uniqueOf (filter (\<lambda>p. p \<noteq> [] \<and> p \<noteq> ''?'') places)"
  have a: "geocodeAll svc' st1 places = (r1, st1)"
    if h: "geocodeAll svc st places = (r1, st1)"
  proof -
    from h have "geocodeLoop svc st [] ?ps = (r1, st1)" by (simp add: geocodeAll_def)
    from geocodeLoop_replay [OF this, of svc'] show ?thesis
      by (auto simp: geocodeAll_def)
  qed
  have b: "k \<in> dom (cache st1)"
    if h: "geocodeAll svc st places = (r1, st1)" and p: "pl \<in> set places"
      and c: "cleanPlaceName pl = Some k" for pl k
  proof -
    from h have l: "geocodeLoop svc st [] ?ps = (r1, st1)" by (simp add: geocodeAll_def)
    from p cleanPlaceName_Some [OF c] have "pl \<in> set ?ps" by (simp add: set_uniqueOf)
    from geocodeLoop_dom [OF l this c] show ?thesis .
  qed
  have c: "cache st' k = Some v
           \<and> (\<forall>st''. cache st' \<subseteq>\<^sub>m cache st'' \<longrightarrow> geocode svc' st'' pl = (v, st''))"
    if "geocode svc st pl = (v, st')" "cleanPlaceName pl = Some k"
    using geocode_caches [OF that(2,1)] geocode_replay [OF that(1)] by simp
  have d: "cache st \<subseteq>\<^sub>m cache st'" if "geocode svc st pl = (v, st')"
    using geocode_extends [OF that] .
  from a b c d show ?thesis by blast
qed

theorem geocoding_cache_idempotent_witness:
  "fst (geocodeAll sydneyService emptyGeo examplePlaces)
     = [(''Sydney, Australia'', (''-33.8'', ''151.2''))]
   \<and> requests (snd (geocodeAll sydneyService emptyGeo examplePlaces))
     = [''Sydney, Australia'', ''Perth, X, Mars'', ''X, Mars'']
   \<and> geocodeAll (\<lambda>q. Failed) (snd (geocodeAll sydneyService emptyGeo examplePlaces))
        examplePlaces
     = geocodeAll sydneyService emptyGeo examplePlaces
   \<and> cleanPlaceName ''Perth, X, Mars'' = Some ''Perth, X, Mars''
   \<and> cache (snd (geocode sydneyService emptyGeo ''Perth, X, Mars'')) ''Perth, X, Mars''
     = Some None
   \<and> geocode (\<lambda>q. Failed) (snd (geocode sydneyService emptyGeo ''Perth, X, Mars''))
        ''Perth, X, Mars''
     = (None, snd (geocode sydneyService emptyGeo ''Perth, X, Mars''))"
proof -
  let ?X = "geocodeAll sydneyService emptyGeo examplePlaces"
  let ?G = "geocode sydneyService emptyGeo ''Perth, X, Mars''"
  have a: "fst ?X = [(''Sydney, Australia'', (''-33.8'', ''151.2''))]" by code_simp
  have b: "requests (snd ?X) = [''Sydney, Australia'', ''Perth, X, Mars'', ''X, Mars'']"
    by code_simp
  have c: "cleanPlaceName ''Perth, X, Mars'' = Some ''Perth, X, Mars''" by code_simp
  have d: "fst ?G = None" by code_simp
  have x: "?X = (fst ?X, snd ?X)" and g: "?G = (None, snd ?G)"
    using d by (simp_all add: prod_eq_iff)
  from geocoding_cache_idempotent
         [of sydneyService emptyGeo examplePlaces "fst ?X" "snd ?X" "\<lambda>q. Failed"
             "''Perth, X, Mars''" None "snd ?G" "''Perth, X, Mars''"] x g c
  have "geocodeAll (\<lambda>q. Failed) (snd ?X) examplePlaces = ?X
        \<and> cache (snd ?G) ''Perth, X, Mars'' = Some None
        \<and> (\<forall>st''. cache (snd ?G) \<subseteq>\<^sub>m cache st''
               \<longrightarrow> geocode (\<lambda>q. Failed) st'' ''Perth, X, Mars'' = (None, st''))"
    by simp
  then have "geocodeAll (\<lambda>q. Failed) (snd ?X) examplePlaces = ?X
        \<and> cache (snd ?G) ''Perth, X, Mars'' = Some None
        \<and> geocode (\<lambda>q. Failed) (snd ?G) ''Perth, X, Mars'' = (None, snd ?G)"
    by (simp add: map_le_refl)
  with a b c show ?thesis by simp
qed

text \<open>
  Claim C7, as stated, fails: for a birth place \<open>?\<close> no event is derived at all, so
  there is nothing to skip. The import of the person below reports no event imported
  and none skipped, where the claim has one skipped; it sends no query.
\<close>

theorem unknown_place_not_counted:
  "map (\<lambda>i. place (birth i)) (fst (parseRecords gedcomUnknownPlace)) = [Some ''?'']
   \<and> imported (fst (importGedcom sydneyService emptyWorld gedcomUnknownPlace)) = 0
   \<and> skipped (fst (importGedcom sydneyService emptyWorld gedcomUnknownPlace)) = 0
   \<and> requests (geo (snd (importGedcom sydneyService emptyWorld gedcomUnknownPlace))) = []"
  by code_simp

text \<open>
  Claim C7, amended. A person whose birth place is \<open>?\<close> has no birth event, so that
  place is counted neither as imported nor as skipped; no event has the place \<open>?\<close> or
  an empty place. The place normaliser maps \<open>?\<close> to \<open>null\<close>, and a place that it maps
  to \<open>null\<close> is resolved to \<open>null\<close> at once: the cache and the list of requests stay as
  they were. \<open>geocodeAll\<close> drops a \<open>?\<close> from its list before anything else.
\<close>

theorem placeholder_never_geocoded:
  "(place (birth indi) = Some ''?'' \<longrightarrow> Birth \<notin> ev_type ` set (eventsOf indi))
   \<and> (\<forall>e \<in> set (eventsOf indi). ev_place e \<noteq> ''?'' \<and> ev_place e \<noteq> [])
   \<and> cleanPlaceName ''?'' = None
   \<and> (cleanPlaceName pl = None \<longrightarrow> geocode svc st pl = (None, st))
   \<and> geocodeAll svc st (''?'' # places) = geocodeAll svc st places"
  using no_birth_at_placeholder [of indi] event_place_ok [of _ indi] geocode_unclean [of pl svc st]
  by (auto simp: cleanPlaceName_def geocodeAll_def)

theorem placeholder_never_geocoded_witness:
  "place (birth johnUnknown) = Some ''?''
   \<and> Birth \<notin> ev_type ` set (eventsOf johnUnknown)
   \<and> cleanPlaceName '','' = None
   \<and> geocode sydneyService emptyGeo '','' = (None, emptyGeo)"
proof -
  have a: "place (birth johnUnknown) = Some ''?''" by code_simp
  have b: "cleanPlaceName '','' = None" by code_simp
  from placeholder_never_geocoded [of johnUnknown "'',''" sydneyService emptyGeo] a b
  show ?thesis by simp
qed

section \<open>Facts about the import\<close>

text \<open>
  Claim C4, as stated, fails when no event is derived: the list of names returned is
  then the list of all the people stored, though none of them has a persisted event.
\<close>

theorem names_returned_without_events:
  "fst (importGedcom sydneyService emptyWorld gedcomJohnSmith) =
     \<lparr>imported = 0, skipped = 0, res_people = [''John SMITH''], peopleCount = 1,
      familiesCount = 0,
      message = ''No geocodable events found. Stored 1 people and 0 family links.''\<rparr>
   \<and> appEvents (snd (importGedcom sydneyService emptyWorld gedcomJohnSmith)) = []"
  by code_simp

text \<open>
  Claim C4, amended. Let an import return \<open>res\<close> and leave the world \<open>w'\<close>, and call an
  event resolved when the geocoder, in the state the import left, answers coordinates
  for its place. When at least one event is derived: the application events added are,
  in order, the resolved events with their coordinates; \<open>imported\<close> counts the resolved
  events and \<open>skipped\<close> the others, so that their sum is the number of events; the list
  of names holds, sorted and without repetition, exactly the display names of the
  resolved events; the message starts with \<open>Successfully imported\<close>. When no event is
  derived: \<open>imported\<close> and \<open>skipped\<close> are zero, the state of the geocoder is unchanged
  (no request is sent), no application event is added, the message starts with
  \<open>No geocodable events found.\<close>, and the list of names holds the display names of all
  the people stored.
\<close>

theorem import_counts:
  assumes "importGedcom svc w content = (res, w')"
  shows "(events (parseGedcomFull content) \<noteq> [] \<longrightarrow>
            appEvents w' = appEvents w @ concat (map (\<lambda>e.
               case fst (geocode svc (geo w') (ev_place e)) of
                 Some c \<Rightarrow> [createWithSource e c] | None \<Rightarrow> [])
               (events (parseGedcomFull content)))
          \<and> imported res = length (filter (\<lambda>e. fst (geocode svc (geo w') (ev_place e)) \<noteq> None)
                                    (events (parseGedcomFull content)))
          \<and> skipped res = length (filter (\<lambda>e. fst (geocode svc (geo w') (ev_place e)) = None)
                                    (events (parseGedcomFull content)))
          \<and> imported res + skipped res = length (events (parseGedcomFull content))
          \<and> set (res_people res) =
               ev_name ` {e \<in> set (events (parseGedcomFull content)).
                           fst (geocode svc (geo w') (ev_place e)) \<noteq> None}
          \<and> distinct (res_people res) \<and> sorted (res_people res)
          \<and> take 21 (message res) = ''Successfully imported'')
       \<and> (events (parseGedcomFull content) = [] \<longrightarrow>
            imported res = 0 \<and> skipped res = 0 \<and> geo w' = geo w \<and> appEvents w' = appEvents w
          \<and> res_people res = sort (map p_name (people (parseGedcomFull content)))
          \<and> take 27 (message res) = ''No geocodable events found.'')"
proof (cases "events (parseGedcomFull content) = []")
  case True
  with assms show ?thesis by (auto simp: importGedcom_def Let_def)
next
  case False
  let ?evs = "events (parseGedcomFull content)"
  obtain gc g where ga: "geocodeAll svc (geo w) (map ev_place ?evs) = (gc, g)"
    by (cases "geocodeAll svc (geo w) (map ev_place ?evs)")
  let ?l = "foldl (importStep gc)
              \<lparr>l_imported = 0, l_skipped = 0, l_peopleSet = [], l_created = []\<rparr> ?evs"
  from assms False ga have res: "imported res = l_imported ?l" "skipped res = l_skipped ?l"
    "res_people res = sort (l_peopleSet ?l)" "take 21 (message res) = ''Successfully imported''"
    and w': "geo w' = g" "appEvents w' = appEvents w @ l_created ?l"
    by (auto simp: importGedcom_def Let_def)
  have lk: "map_of gc (ev_place e) = fst (geocode svc (geo w') (ev_place e))"
    if "e \<in> set ?evs" for e
    using geocodeAll_lookup [OF ga, of "ev_place e" svc] that w'(1) by simp
  have f1: "filter (\<lambda>e. map_of gc (ev_place e) \<noteq> None) ?evs
            = filter (\<lambda>e. fst (geocode svc (geo w') (ev_place e)) \<noteq> None) ?evs"
    using lk by (auto intro: filter_cong)
  have f2: "filter (\<lambda>e. map_of gc (ev_place e) = None) ?evs
            = filter (\<lambda>e. fst (geocode svc (geo w') (ev_place e)) = None) ?evs"
    using lk by (auto intro: filter_cong)
  have f3: "map (\<lambda>e. case map_of gc (ev_place e) of
                         Some c \<Rightarrow> [createWithSource e c] | None \<Rightarrow> []) ?evs
            = map (\<lambda>e. case fst (geocode svc (geo w') (ev_place e)) of
                         Some c \<Rightarrow> [createWithSource e c] | None \<Rightarrow> []) ?evs"
    using lk by (auto intro: map_cong)
  have f4: "{e \<in> set ?evs. map_of gc (ev_place e) \<noteq> None}
            = {e \<in> set ?evs. fst (geocode svc (geo w') (ev_place e)) \<noteq> None}"
    using lk by auto
  have sum: "length (filter (\<lambda>e. fst (geocode svc (geo w') (ev_place e)) \<noteq> None) ?evs)
             + length (filter (\<lambda>e. fst (geocode svc (geo w') (ev_place e)) = None) ?evs)
             = length ?evs"
    using sum_length_filter_compl [of "\<lambda>e. fst (geocode svc (geo w') (ev_place e)) \<noteq> None" ?evs]
    by simp
  from False res w' f1 f2 f3 f4 sum show ?thesis
    by (simp add: loop_created loop_imported loop_skipped loop_people_set
                  loop_people_distinct)
qed

theorem import_counts_witness:
  "events (parseGedcomFull gedcomSydney) \<noteq> []
   \<and> imported (fst (importGedcom sydneyService emptyWorld gedcomSydney)) = 1
   \<and> skipped (fst (importGedcom sydneyService emptyWorld gedcomSydney)) = 1
   \<and> res_people (fst (importGedcom sydneyService emptyWorld gedcomSydney)) = [''John Smith'']
   \<and> length (events (parseGedcomFull gedcomSydney)) = 2
   \<and> map (\<lambda>a. (ae_title a, ae_category a, ae_coords a))
        (appEvents (snd (importGedcom sydneyService emptyWorld gedcomSydney)))
      = [(''John Smith - Birth'', ''birth'', (''-33.8'', ''151.2''))]
   \<and> events (parseGedcomFull gedcomJohnSmith) = []
   \<and> geo (snd (importGedcom sydneyService emptyWorld gedcomJohnSmith)) = geo emptyWorld"
proof -
  let ?X = "importGedcom sydneyService emptyWorld gedcomSydney"
  let ?Y = "importGedcom sydneyService emptyWorld gedcomJohnSmith"
  have a: "events (parseGedcomFull gedcomSydney) \<noteq> []" by code_simp
  have b: "imported (fst ?X) = 1" by code_simp
  have c: "res_people (fst ?X) = [''John Smith'']" by code_simp
  have d: "length (events (parseGedcomFull gedcomSydney)) = 2" by code_simp
  have e: "map (\<lambda>a. (ae_title a, ae_category a, ae_coords a)) (appEvents (snd ?X))
           = [(''John Smith - Birth'', ''birth'', (''-33.8'', ''151.2''))]"
    by code_simp
  have f: "events (parseGedcomFull gedcomJohnSmith) = []" by code_simp
  have x: "?X = (fst ?X, snd ?X)" and y: "?Y = (fst ?Y, snd ?Y)" by simp_all
  from import_counts [OF x] a have "imported (fst ?X) + skipped (fst ?X)
      = length (events (parseGedcomFull gedcomSydney))"
    by blast
  with b d have s: "skipped (fst ?X) = 1" by simp
  from import_counts [OF y] f have "geo (snd ?Y) = geo emptyWorld" by blast
  with a b c d e f s show ?thesis by simp
qed

section \<open>Facts about the tree builders\<close>

lemma keys_updNode: "map fst (updNode k f m) = map fst m"
  by (induction m) (auto simp: updNode_def)

lemma map_of_updNode:
  "map_of (updNode k f m) x = (if x = k then map_option f (map_of m x) else map_of m x)"
  by (induction m) (auto simp: updNode_def)

lemma keys_attach: "map fst (attach p m c) = map fst m"
  by (simp add: attach_def keys_updNode)

lemma children_attach:
  "map_option n_children (map_of (attach p m c) x) =
     map_option (\<lambda>cs. if x = p then cs @ [c] else cs) (map_option n_children (map_of m x))"
  by (cases "map_of m x") (auto simp: attach_def map_of_updNode)

lemma known_iff: "(map_of m x \<noteq> None) = (x \<in> set (map fst m))"
  by (induction m) auto

lemma keys_setProp:
  "map fst (setProp k v m) = (if k \<in> set (map fst m) then map fst m else map fst m @ [k])"
  by (induction m) force+

lemma keys_fold_setProp:
  "map fst (foldl (\<lambda>m p. setProp (key p) (val p) m) m0 ps)
     = map fst m0 @ filter (\<lambda>k. k \<notin> set (map fst m0)) (uniqueOf (map key ps))"
proof (induction ps arbitrary: m0)
  case Nil
  then show ?case by simp
next
  case (Cons p ps)
  show ?case
  proof (cases "key p \<in> set (map fst m0)")
    case True
    have "filter (\<lambda>k. k \<notin> set (map fst m0)) (filter (\<lambda>y. y \<noteq> key p) (uniqueOf (map key ps)))
          = filter (\<lambda>k. k \<notin> set (map fst m0)) (uniqueOf (map key ps))"
      using True by (auto intro: filter_cong)
    with True show ?thesis by (simp add: Cons.IH keys_setProp)
  next
    case False
    have "filter (\<lambda>k. k \<notin> set (map fst m0 @ [key p])) (uniqueOf (map key ps))
          = filter (\<lambda>k. k \<notin> set (map fst m0)) (filter (\<lambda>y. y \<noteq> key p) (uniqueOf (map key ps)))"
      by (auto intro: filter_cong)
    with False show ?thesis by (simp add: Cons.IH keys_setProp)
  qed
qed

lemma keys_peopleMapOf: "map fst (peopleMapOf ps) = uniqueOf (map p_gedcomId ps)"
  using keys_fold_setProp [of p_gedcomId gedcomNode "[]" ps]
  by (simp add: peopleMapOf_def)

lemma map_of_setProp: "map_of (setProp k v m) x = (if x = k then Some v else map_of m x)"
  by (induction m) auto

lemma children_fold_setProp:
  assumes "\<And>p. n_children (val p) = []" "\<And>k nd. map_of m0 k = Some nd \<Longrightarrow> n_children nd = []"
  shows "map_of (foldl (\<lambda>m p. setProp (key p) (val p) m) m0 ps) k = Some nd \<Longrightarrow> n_children nd = []"
  using assms(2)
proof (induction ps arbitrary: m0)
  case Nil
  then show ?case by simp
next
  case (Cons p ps)
  show ?case
  proof (rule Cons.IH)
    show "map_of (foldl (\<lambda>m p. setProp (key p) (val p) m) (setProp (key p) (val p) m0) ps) k = Some nd"
      using Cons.prems(1) by simp
    show "n_children nd' = []" if "map_of (setProp (key p) (val p) m0) k' = Some nd'" for k' nd'
      using that Cons.prems(2) [of k' nd'] assms(1) [of p]
      by (auto simp: map_of_setProp split: if_splits)
  qed
qed

lemma children_peopleMapOf:
  "map_option n_children (map_of (peopleMapOf ps) k)
     = (if k \<in> set (map p_gedcomId ps) then Some [] else None)"
proof (cases "map_of (peopleMapOf ps) k")
  case None
  then show ?thesis
    using known_iff [of "peopleMapOf ps" k] by (simp add: keys_peopleMapOf set_uniqueOf)
next
  case (Some nd)
  have "n_children nd = []"
    using children_fold_setProp [of gedcomNode "[]" p_gedcomId ps k nd] Some
    by (simp add: peopleMapOf_def gedcomNode_def)
  with Some show ?thesis
    using known_iff [of "peopleMapOf ps" k] by (simp add: keys_peopleMapOf set_uniqueOf)
qed

lemma keys_spouseStep: "map fst (spouseStep fam m) = map fst m"
  by (auto simp: spouseStep_def Let_def keys_updNode split: option.splits)

lemma children_spouseStep:
  "map_option n_children (map_of (spouseStep fam m) x) = map_option n_children (map_of m x)"
  by (cases "map_of m x")
     (auto simp: spouseStep_def Let_def map_of_updNode split: option.splits)

lemma keys_attachKnown: "map fst (attachKnown p m c) = map fst m"
  by (simp add: attachKnown_def keys_attach)

lemma children_attachKnown:
  "map_option n_children (map_of (attachKnown p m c) x) =
     map_option (\<lambda>l. if x = p \<and> c \<in> set (map fst m) then l @ [c] else l)
       (map_option n_children (map_of m x))"
proof (cases "map_of m c")
  case None
  then have "c \<notin> set (map fst m)" using known_iff [of m c] by simp
  with None show ?thesis by (cases "map_of m x") (simp_all add: attachKnown_def)
next
  case (Some nd)
  then have "c \<in> set (map fst m)" using known_iff [of m c] by simp
  with Some show ?thesis
    by (cases "map_of m x") (simp_all add: attachKnown_def children_attach)
qed

lemma keys_attachAll: "map fst (foldl (attachKnown p) m cs) = map fst m"
  by (induction cs arbitrary: m) (simp_all add: keys_attachKnown)

lemma children_attachAll:
  "map_option n_children (map_of (foldl (attachKnown p) m cs) x)
   = map_option (\<lambda>l. if x = p then l @ filter (\<lambda>c. c \<in> set (map fst m)) cs else l)
       (map_option n_children (map_of m x))"
proof (induction cs arbitrary: m)
  case Nil
  then show ?case by (cases "map_of m x") simp_all
next
  case (Cons c cs)
  show ?case
    by (cases "map_of m x")
       (simp_all add: Cons.IH keys_attachKnown children_attachKnown del: set_map)
qed

lemma keys_familyStep: "map fst (familyStep m fam) = map fst m"
  by (cases "primaryParent fam")
     (simp_all add: familyStep_def Let_def keys_attachAll keys_spouseStep)

lemma children_familyStep:
  "map_option n_children (map_of (familyStep m fam) x)
   = map_option (\<lambda>l. l @ (if primaryParent fam = Some x
                            then filter (\<lambda>c. c \<in> set (map fst m)) (childIds fam) else []))
       (map_option n_children (map_of m x))"
proof (cases "primaryParent fam")
  case None
  then show ?thesis
    by (cases "map_of m x") (simp_all add: familyStep_def children_spouseStep)
next
  case (Some p)
  show ?thesis
  proof (cases "map_of m p")
    case None
    with Some show ?thesis
      by (cases "map_of m x") (auto simp: familyStep_def children_spouseStep)
  next
    case (Some nd)
    with \<open>primaryParent fam = Some p\<close> show ?thesis
      by (cases "map_of m x")
         (simp_all add: familyStep_def children_attachAll children_spouseStep keys_spouseStep
            del: set_map)
  qed
qed

lemma keys_families: "map fst (foldl familyStep m fams) = map fst m"
  by (induction fams arbitrary: m) (auto simp: keys_familyStep)

lemma children_families:
  "map_option n_children (map_of (foldl familyStep m fams) x)
   = map_option (\<lambda>l. l @ concat (map (\<lambda>fam. if primaryParent fam = Some x
                            then filter (\<lambda>c. c \<in> set (map fst m)) (childIds fam) else []) fams))
       (map_option n_children (map_of m x))"
proof (induction fams arbitrary: m)
  case Nil
  then show ?case by (cases "map_of m x") auto
next
  case (Cons fam fams)
  show ?case
    by (cases "map_of m x")
       (simp_all add: Cons.IH children_familyStep keys_familyStep del: set_map cong: if_cong)
qed


lemma gedcom_keys:
  "map fst (foldl familyStep (peopleMapOf ps) fams) = uniqueOf (map p_gedcomId ps)"
  by (simp add: keys_families keys_peopleMapOf)

lemma gedcom_children:
  "map_option n_children (map_of (foldl familyStep (peopleMapOf ps) fams) k)
   = (if k \<in> set (map p_gedcomId ps)
      then Some (concat (map (\<lambda>fam. if primaryParent fam = Some k
                                      then filter (\<lambda>c. c \<in> set (map p_gedcomId ps)) (childIds fam)
                                      else []) fams))
      else None)"
  by (simp add: children_families children_peopleMapOf keys_peopleMapOf set_uniqueOf
           del: set_map cong: if_cong)

lemma those_map_Some: "(those xs = Some ys) = (xs = map Some ys)"
proof (induction xs arbitrary: ys)
  case Nil
  then show ?case by auto
next
  case (Cons x xs)
  then show ?case by (cases x; cases ys) auto
qed

lemma those_total: "\<forall>x \<in> set xs. x \<noteq> None \<Longrightarrow> \<exists>ys. those xs = Some ys"
proof (induction xs)
  case Nil
  then show ?case by simp
next
  case (Cons x xs)
  then show ?case by (cases x) auto
qed

lemma cleanNode_root:
  "cleanNode d m k = Some t \<Longrightarrow>
     \<exists>nd. map_of m k = Some nd \<and> t_name t = n_name nd \<and> t_attributes t = n_attributes nd
          \<and> map (cleanNode (d - 1) m) (n_children nd) = map Some (t_children t)"
  by (cases d) (auto simp: those_map_Some split: option.splits)

lemma cleanNode_total:
  assumes "\<And>k nd c. map_of m k = Some nd \<Longrightarrow> c \<in> set (n_children nd)
               \<Longrightarrow> map_of m c \<noteq> None \<and> rank c < rank k"
  shows "map_of m k \<noteq> None \<Longrightarrow> rank k < d \<Longrightarrow> \<exists>t. cleanNode d m k = Some t"
proof (induction d arbitrary: k)
  case 0
  then show ?case by simp
next
  case (Suc d)
  from Suc.prems(1) obtain nd where nd: "map_of m k = Some nd" by auto
  have "\<forall>x \<in> set (map (cleanNode d m) (n_children nd)). x \<noteq> None"
  proof
    fix x assume "x \<in> set (map (cleanNode d m) (n_children nd))"
    then obtain c where c: "c \<in> set (n_children nd)" "x = cleanNode d m c" by auto
    from assms [OF nd c(1)] Suc.prems(2) have "map_of m c \<noteq> None" "rank c < d" by auto
    from Suc.IH [OF this] c(2) show "x \<noteq> None" by auto
  qed
  from those_total [OF this] nd show ?case by auto
qed

lemma finish_one:
  "cleanNode (length m) m r = Some t \<Longrightarrow> finish label m [r] = Inr (Some t)"
  by (simp add: finish_def)

lemma finish_many:
  "2 \<le> length roots \<Longrightarrow> map (cleanNode (length m) m) roots = map Some ts
     \<Longrightarrow> finish label m roots = Inr (Some (Node label [] ts))"
  by (cases roots; cases "tl roots") (auto simp: finish_def those_map_Some [THEN iffD2])

lemma rootKeys_order: "rootKeys ks m = filter (\<lambda>k. k \<in> set (rootKeys ks m)) ks"
  by (auto simp: rootKeys_def intro: filter_cong)

lemma rootKeys_known: "r \<in> set (rootKeys ks m) \<Longrightarrow> map_of m r \<noteq> None"
  by (auto simp: rootKeys_def split: option.splits)


lemma keys_memberMapOf: "map fst (memberMapOf ms) = uniqueOf (map m_id ms)"
  using keys_fold_setProp [of m_id memberNode "[]" ms]
  by (simp add: memberMapOf_def)

lemma children_memberMapOf:
  "map_option n_children (map_of (memberMapOf ms) k)
     = (if k \<in> set (map m_id ms) then Some [] else None)"
proof (cases "map_of (memberMapOf ms) k")
  case None
  then show ?thesis
    using known_iff [of "memberMapOf ms" k] by (simp add: keys_memberMapOf set_uniqueOf)
next
  case (Some nd)
  have "n_children nd = []"
    using children_fold_setProp [of memberNode "[]" m_id ms k nd] Some
    by (simp add: memberMapOf_def memberNode_def)
  with Some show ?thesis
    using known_iff [of "memberMapOf ms" k] by (simp add: keys_memberMapOf set_uniqueOf)
qed

lemma keys_relationStep: "map fst (relationStep m rel) = map fst m"
  by (auto simp: relationStep_def Let_def keys_updNode keys_attach split: option.splits)

lemma children_updNode_attr:
  assumes "\<And>nd. n_children (f nd) = n_children nd"
  shows "map_option n_children (map_of (updNode k f m) x) = map_option n_children (map_of m x)"
proof -
  from assms have "n_children \<circ> f = n_children" by (simp add: fun_eq_iff)
  then show ?thesis by (simp add: map_of_updNode option.map_comp)
qed

lemma children_relationStep:
  "map_option n_children (map_of (relationStep m rel) x)
   = map_option (\<lambda>l. l @ (if rel_kind rel = ''parent'' \<and> user_id rel = x
                               \<and> related_user_id rel \<in> set (map fst m)
                            then [related_user_id rel] else []))
       (map_option n_children (map_of m x))"
proof (cases "map_of m (user_id rel)")
  case None
  then show ?thesis by (cases "map_of m x") (auto simp: relationStep_def)
next
  case u: (Some un)
  show ?thesis
  proof (cases "map_of m (related_user_id rel)")
    case None
    then have "related_user_id rel \<notin> set (map fst m)"
      using known_iff [of m "related_user_id rel"] by simp
    with None u show ?thesis by (cases "map_of m x") (simp_all add: relationStep_def)
  next
    case (Some rn)
    then have k: "related_user_id rel \<in> set (map fst m)"
      using known_iff [of m "related_user_id rel"] by simp
    let ?m1 = "if rel_kind rel = ''parent''
               then attach (user_id rel) m (related_user_id rel) else m"
    have "map_option n_children (map_of (relationStep m rel) x)
          = map_option n_children (map_of ?m1 x)"
      using u Some
      by (simp add: relationStep_def Let_def children_updNode_attr del: set_map)
    also have "\<dots> = map_option (\<lambda>l. l @ (if rel_kind rel = ''parent'' \<and> user_id rel = x
                               \<and> related_user_id rel \<in> set (map fst m)
                            then [related_user_id rel] else []))
                        (map_option n_children (map_of m x))"
    proof (cases "rel_kind rel = ''parent''")
      case True
      with k show ?thesis
        by (simp add: children_attach del: set_map)
    next
      case False
      then show ?thesis by (simp add: option.map_ident)
    qed
    finally show ?thesis .
  qed
qed

lemma keys_relations: "map fst (foldl relationStep m rels) = map fst m"
  by (induction rels arbitrary: m) (auto simp: keys_relationStep)

lemma children_relations:
  "map_option n_children (map_of (foldl relationStep m rels) x)
   = map_option (\<lambda>l. l @ concat (map (\<lambda>rel. if rel_kind rel = ''parent'' \<and> user_id rel = x
                               \<and> related_user_id rel \<in> set (map fst m)
                            then [related_user_id rel] else []) rels))
       (map_option n_children (map_of m x))"
proof (induction rels arbitrary: m)
  case Nil
  then show ?case by (cases "map_of m x") auto
next
  case (Cons rel rels)
  show ?case
    by (cases "map_of m x")
       (simp_all add: Cons.IH children_relationStep keys_relationStep del: set_map cong: if_cong)
qed

lemma member_keys:
  "map fst (foldl relationStep (memberMapOf ms) rels) = uniqueOf (map m_id ms)"
  by (simp add: keys_relations keys_memberMapOf)

lemma member_children:
  "map_option n_children (map_of (foldl relationStep (memberMapOf ms) rels) k)
   = (if k \<in> set (map m_id ms)
      then Some (concat (map (\<lambda>rel. if rel_kind rel = ''parent'' \<and> user_id rel = k
                                        \<and> related_user_id rel \<in> set (map m_id ms)
                                      then [related_user_id rel] else []) rels))
      else None)"
  by (simp add: children_relations children_memberMapOf keys_memberMapOf set_uniqueOf
           del: set_map cong: if_cong)

lemma finish_ranked:
  assumes edges: "\<And>k nd c. map_of m k = Some nd \<Longrightarrow> c \<in> set (n_children nd)
                    \<Longrightarrow> map_of m c \<noteq> None \<and> rank c < rank k"
    and bound: "\<And>k. map_of m k \<noteq> None \<Longrightarrow> rank k < length m"
    and roots: "\<And>r. r \<in> set roots \<Longrightarrow> map_of m r \<noteq> None"
  shows "(\<forall>r. roots = [r] \<longrightarrow>
           (\<exists>t. finish label m roots = Inr (Some t) \<and> cleanNode (length m) m r = Some t
                \<and> map_option n_name (map_of m r) = Some (t_name t)
                \<and> map_option n_attributes (map_of m r) = Some (t_attributes t)))
       \<and> (2 \<le> length roots \<longrightarrow>
           (\<exists>ts. finish label m roots = Inr (Some (Node label [] ts))
                 \<and> map (cleanNode (length m) m) roots = map Some ts))"
proof -
  have tot: "\<exists>t. cleanNode (length m) m r = Some t" if "r \<in> set roots" for r
    using cleanNode_total [of m rank r "length m"] edges bound [OF roots [OF that]]
      roots [OF that]
    by blast
  have one: "\<exists>t. finish label m roots = Inr (Some t) \<and> cleanNode (length m) m r = Some t
                \<and> map_option n_name (map_of m r) = Some (t_name t)
                \<and> map_option n_attributes (map_of m r) = Some (t_attributes t)"
    if "roots = [r]" for r
  proof -
    from tot [of r] that obtain t where t: "cleanNode (length m) m r = Some t" by auto
    from cleanNode_root [OF t] finish_one [OF t, of label] that t show ?thesis by auto
  qed
  have many: "\<exists>ts. finish label m roots = Inr (Some (Node label [] ts))
                 \<and> map (cleanNode (length m) m) roots = map Some ts"
    if "2 \<le> length roots"
  proof -
    have "\<forall>x \<in> set (map (cleanNode (length m) m) roots). x \<noteq> None"
      using tot by auto
    from those_total [OF this] obtain ts
      where "map (cleanNode (length m) m) roots = map Some ts"
      by (auto simp: those_map_Some)
    with finish_many [OF that this, of label] show ?thesis by blast
  qed
  from one many show ?thesis by blast
qed

lemma in_concat_if:
  "c \<in> set (concat (map (\<lambda>x. if P x then f x else []) xs))
     \<Longrightarrow> \<exists>x \<in> set xs. P x \<and> c \<in> set (f x)"
  by (induction xs) (auto split: if_splits)

lemma sorted_objectKeysNat:
  "\<forall>k \<in> set ks. k < 4294967295 \<Longrightarrow> sorted (objectKeysNat ks)"
proof -
  assume "\<forall>k \<in> set ks. k < 4294967295"
  then have "filter (\<lambda>k. \<not> k < 4294967295) ks = []" by (auto simp: filter_empty_conv)
  then show ?thesis by (simp add: objectKeysNat_def)
qed

lemma set_objectKeysNat: "set (objectKeysNat ks) = set ks"
  by (auto simp: objectKeysNat_def)

text \<open>The ids that the parser stores are cross-references.\<close>

lemma xrefThen_Some: "xrefThen kind rest = Some t \<Longrightarrow> isXref t"
  by (auto simp: xrefThen_def Let_def split: if_splits)

lemma tagXref_Some: "tagXref tag rest = Some t \<Longrightarrow> isXref t"
  by (auto simp: tagXref_def Let_def split: if_splits)

lemma xrefState_pushCurrent: "xrefState st \<Longrightarrow> xrefState (pushCurrent st)"
  by (auto simp: xrefState_def pushCurrent_def split: option.splits)

lemma xrefState_level0: "xrefState st \<Longrightarrow> xrefState (level0 rest st)"
proof -
  assume "xrefState st"
  from xrefState_pushCurrent [OF this]
  have p: "list_all (\<lambda>i. isXref (gedcomId i)) (individuals (pushCurrent st))"
    "list_all xrefFamily (famRecords (pushCurrent st))"
    by (simp_all add: xrefState_def)
  have i: "isXref (gedcomId (newIndi t))" if "xrefThen ''INDI'' rest = Some t" for t
    using xrefThen_Some [OF that] by (simp add: newIndi_def)
  have f: "xrefFamily (newFam t)" if "xrefThen ''FAM'' rest = Some t" for t
    by (simp add: newFam_def xrefFamily_def)
  from p i f show ?thesis
    by (cases "xrefThen ''INDI'' rest"; cases "xrefThen ''FAM'' rest")
       (simp_all add: level0_def xrefState_def)
qed

lemma gedcomId_indiLevel1: "gedcomId (fst (indiLevel1 rest i)) = gedcomId i"
  by (simp add: indiLevel1_def split: option.splits)

lemma gedcomId_indiLevel2: "gedcomId (indiLevel2 ev rest i) = gedcomId i"
  by (simp add: indiLevel2_def split: option.splits subcontext.splits)

lemma xrefState_indiStep: "xrefState st \<Longrightarrow> xrefState (indiStep level rest st)"
proof (cases "currentIndi st")
  case None
  assume "xrefState st"
  with None show ?thesis by (simp add: indiStep_def)
next
  case (Some i)
  assume "xrefState st"
  with Some show ?thesis
    using gedcomId_indiLevel1 [of rest i] gedcomId_indiLevel2 [of "currentEvent st" rest i]
    by (cases "indiLevel1 rest i") (simp add: indiStep_def xrefState_def)
qed

lemma xrefFamily_famLevel1: "xrefFamily f \<Longrightarrow> xrefFamily (famLevel1 rest f)"
  using tagXref_Some [of "''HUSB''" rest] tagXref_Some [of "''WIFE''" rest]
    tagXref_Some [of "''CHIL''" rest]
  by (cases "tagXref ''HUSB'' rest"; cases "tagXref ''WIFE'' rest"; cases "tagXref ''CHIL'' rest")
     (simp_all add: famLevel1_def xrefFamily_def)

lemma xrefState_famStep: "xrefState st \<Longrightarrow> xrefState (famStep level rest st)"
proof (cases "currentFam st")
  case None
  assume "xrefState st"
  with None show ?thesis by (simp add: famStep_def)
next
  case (Some f)
  assume "xrefState st"
  with Some show ?thesis
    using xrefFamily_famLevel1 [of f rest] by (simp add: famStep_def xrefState_def)
qed

lemma xrefState_lineStep: "xrefState st \<Longrightarrow> xrefState (lineStep st line)"
  using xrefState_level0 xrefState_indiStep xrefState_famStep
  by (cases "matchLine line") (auto simp: lineStep_def)

lemma xrefState_lines: "xrefState st \<Longrightarrow> xrefState (foldl lineStep st ls)"
  by (induction ls arbitrary: st) (simp_all add: xrefState_lineStep)

lemma parser_stores_xrefs:
  "xrefInput (people (parseGedcomFull content)) (families (parseGedcomFull content))"
proof -
  let ?st = "pushCurrent (foldl lineStep initialState (splitLines content))"
  have "xrefState initialState" by (simp add: xrefState_def initialState_def)
  from xrefState_pushCurrent [OF xrefState_lines [OF this]]
  have s: "xrefState ?st" .
  then have "list_all (\<lambda>i. isXref (gedcomId i)) (individuals ?st)"
    "list_all xrefFamily (famRecords ?st)"
    by (simp_all add: xrefState_def)
  then show ?thesis
    by (simp add: parseGedcomFull_def parseRecords_def Let_def xrefInput_def personOf_def
                  list_all_iff)
qed

text \<open>
  When a cycle lies below a root, the cleaning of the nodes does not end; when every
  person lies on a cycle, there is no root and the builder returns \<open>null\<close>.
\<close>

lemma cycle_overflows:
  "buildGedcomTree threePeople cycleBelow = Inl RangeError
   \<and> buildGedcomTree (tl threePeople) (tl cycleBelow) = Inr None"
  by code_simp

text \<open>
  Claim C2, as stated, fails: nothing in the builder looks whether a child already has
  a parent. The child \<open>@I3@\<close> below is listed under two family links with different
  fathers; it is attached under both, and the tree built has five nodes, four of them
  people, for three people.
\<close>

theorem child_attached_under_both:
  "buildGedcomTree threePeople twoFathers =
     Inr (Some (Node ''Ancestors'' []
       [Node ''Adam'' plainAttributes [Node ''Cain'' plainAttributes []],
        Node ''Bob'' plainAttributes [Node ''Cain'' plainAttributes []]]))
   \<and> nodeCount (Node ''Ancestors'' []
       [Node ''Adam'' plainAttributes [Node ''Cain'' plainAttributes []],
        Node ''Bob'' plainAttributes [Node ''Cain'' plainAttributes []]]) = 5
   \<and> length threePeople = 3"
  by code_simp

text \<open>
  Claim C2, amended. Let the ids be cross-references, as the parser stores them. Each
  distinct person id contributes one node to the map of the builder, in the order in which the ids are first met. Every listing of a known child
  under a family link whose primary parent (the husband if there is one, else the wife)
  is a known person attaches the child under that parent, none is passed over: the
  children of the node of a person are, in order and with repetition, the known child
  ids of all the family links of which that person is the primary parent. A child id
  with no person is left out. The children of a node of the tree built are the trees
  of the children of its node in the map.
\<close>

theorem every_listing_attaches:
  "xrefInput ps fams \<longrightarrow>
   (let m = foldl familyStep (peopleMapOf ps) fams in
      map fst m = uniqueOf (map p_gedcomId ps)
    \<and> (\<forall>k \<in> set (map p_gedcomId ps).
          map_option n_children (map_of m k)
            = Some (concat (map (\<lambda>fam. if primaryParent fam = Some k
                                        then filter (\<lambda>c. c \<in> set (map p_gedcomId ps))
                                               (childIds fam)
                                        else []) fams)))
    \<and> (\<forall>k d t. cleanNode (Suc d) m k = Some t \<longrightarrow>
          map_option (\<lambda>nd. map (cleanNode d m) (n_children nd)) (map_of m k)
            = Some (map Some (t_children t))))"
proof -
  let ?m = "foldl familyStep (peopleMapOf ps) fams"
  have c: "map_option (\<lambda>nd. map (cleanNode d ?m) (n_children nd)) (map_of ?m k)
            = Some (map Some (t_children t))"
    if "cleanNode (Suc d) ?m k = Some t" for k d t
    using cleanNode_root [OF that] by auto
  show ?thesis
    unfolding Let_def using c gedcom_keys [of ps fams] gedcom_children [of ps fams]
    by (simp del: set_map)
qed

theorem every_listing_attaches_witness:
  "xrefInput threePeople twoFathers
   \<and> ''@I2@'' \<in> set (map p_gedcomId threePeople)
   \<and> map_option n_children
        (map_of (foldl familyStep (peopleMapOf threePeople) twoFathers) ''@I2@'')
      = Some [''@I3@'']"
proof -
  have x: "xrefInput threePeople twoFathers" by code_simp
  have a: "''@I2@'' \<in> set (map p_gedcomId threePeople)" by code_simp
  have b: "concat (map (\<lambda>fam. if primaryParent fam = Some ''@I2@''
                               then filter (\<lambda>c. c \<in> set (map p_gedcomId threePeople))
                                      (childIds fam)
                               else []) twoFathers) = [''@I3@'']"
    by code_simp
  from every_listing_attaches [of threePeople twoFathers, unfolded Let_def] x a
  have "map_option n_children
          (map_of (foldl familyStep (peopleMapOf threePeople) twoFathers) ''@I2@'')
        = Some (concat (map (\<lambda>fam. if primaryParent fam = Some ''@I2@''
                               then filter (\<lambda>c. c \<in> set (map p_gedcomId threePeople))
                                      (childIds fam)
                               else []) twoFathers))"
    by blast
  with x a b show ?thesis by simp
qed

text \<open>
  Claim C3, as stated, fails for the live members: their ids are integers, an object
  lists its integer keys in ascending order, and so the roots come in the order of
  their ids, not in the order in which they were met.
\<close>

theorem members_listed_by_id:
  "buildFamilyTree twoMembers [] =
     Inr (Some (Node ''Family'' []
       [Node ''Alice'' [(''memberId'', ANum 1)] [], Node ''Bob'' [(''memberId'', ANum 2)] []]))
   \<and> map m_name twoMembers = [''Bob'', ''Alice'']"
  by (simp add: buildFamilyTree_def twoMembers_def memberMapOf_def memberNode_def
        objectKeysNat_def rootKeys_def finish_def)

text \<open>
  Claim C3, amended. With no people, each builder returns \<open>null\<close>. The roots are the
  nodes not marked as having a parent, in the order of \<open>Object.values\<close>: for the parsed
  genealogy the order in which their ids are first met, for the live members that of
  the integer keys of an object, which is ascending when the ids are below \<open>2^32 - 1\<close>.
  Let the links have no cycle: the ids can be numbered, with numbers below the number
  of distinct ids, so that each attached child has a smaller number than its parent.
  Then, with one root, the builder returns the tree of that node itself, with the
  name and the attributes of the node; with two roots or more, it returns a node with
  the fixed label (\<open>Ancestors\<close>, \<open>Family\<close>), no attribute, and the trees of the roots as
  its children, in that order.
\<close>

theorem tree_builder_roots:
  "buildGedcomTree [] fams = Inr None
   \<and> buildFamilyTree [] rels = Inr None
   \<and> (xrefInput ps fams \<longrightarrow>
       (let m = foldl familyStep (peopleMapOf ps) fams; roots = rootKeys (map fst m) m in
        roots = filter (\<lambda>k. k \<in> set roots) (uniqueOf (map p_gedcomId ps))
      \<and> (ps \<noteq> []
           \<and> (\<forall>k \<in> set (map p_gedcomId ps). rank k < length (uniqueOf (map p_gedcomId ps)))
           \<and> (\<forall>fam \<in> set fams. \<forall>c \<in> set (childIds fam). \<forall>p.
                 primaryParent fam = Some p \<and> p \<in> set (map p_gedcomId ps)
                 \<and> c \<in> set (map p_gedcomId ps) \<longrightarrow> rank c < rank p)
         \<longrightarrow> (\<forall>r. roots = [r] \<longrightarrow>
                (\<exists>t. buildGedcomTree ps fams = Inr (Some t)
                     \<and> cleanNode (length m) m r = Some t
                     \<and> map_option n_name (map_of m r) = Some (t_name t)
                     \<and> map_option n_attributes (map_of m r) = Some (t_attributes t)))
            \<and> (2 \<le> length roots \<longrightarrow>
                (\<exists>ts. buildGedcomTree ps fams = Inr (Some (Node ''Ancestors'' [] ts))
                      \<and> map (cleanNode (length m) m) roots = map Some ts)))))
   \<and> (let m = foldl relationStep (memberMapOf ms) rels;
           roots = rootKeys (objectKeysNat (map fst m)) m in
        roots = filter (\<lambda>k. k \<in> set roots) (objectKeysNat (uniqueOf (map m_id ms)))
      \<and> ((\<forall>mb \<in> set ms. m_id mb < 4294967295) \<longrightarrow> sorted roots)
      \<and> (ms \<noteq> []
           \<and> (\<forall>k \<in> set (map m_id ms). mrank k < length (uniqueOf (map m_id ms)))
           \<and> (\<forall>rel \<in> set rels.
                 rel_kind rel = ''parent'' \<and> user_id rel \<in> set (map m_id ms)
                 \<and> related_user_id rel \<in> set (map m_id ms)
                 \<longrightarrow> mrank (related_user_id rel) < mrank (user_id rel))
         \<longrightarrow> (\<forall>r. roots = [r] \<longrightarrow>
                (\<exists>t. buildFamilyTree ms rels = Inr (Some t)
                     \<and> cleanNode (length m) m r = Some t
                     \<and> map_option n_name (map_of m r) = Some (t_name t)
                     \<and> map_option n_attributes (map_of m r) = Some (t_attributes t)))
            \<and> (2 \<le> length roots \<longrightarrow>
                (\<exists>ts. buildFamilyTree ms rels = Inr (Some (Node ''Family'' [] ts))
                      \<and> map (cleanNode (length m) m) roots = map Some ts))))"
proof -
  let ?m = "foldl familyStep (peopleMapOf ps) fams"
  let ?roots = "rootKeys (map fst ?m) ?m"
  let ?ids = "map p_gedcomId ps"
  let ?n = "foldl relationStep (memberMapOf ms) rels"
  let ?nroots = "rootKeys (objectKeysNat (map fst ?n)) ?n"
  let ?mids = "map m_id ms"
  have e: "buildGedcomTree [] fams = Inr None" "buildFamilyTree [] rels = Inr None"
    by (simp_all add: buildGedcomTree_def buildFamilyTree_def)
  have go: "?roots = filter (\<lambda>k. k \<in> set ?roots) (uniqueOf ?ids)"
    using rootKeys_order [of "map fst ?m" ?m] by (simp only: gedcom_keys)
  have lo: "?nroots = filter (\<lambda>k. k \<in> set ?nroots) (objectKeysNat (uniqueOf ?mids))"
    using rootKeys_order [of "objectKeysNat (map fst ?n)" ?n] by (simp only: member_keys)
  have ls: "sorted ?nroots" if "\<forall>mb \<in> set ms. m_id mb < 4294967295"
  proof -
    from that have "\<forall>k \<in> set (uniqueOf ?mids). k < 4294967295"
      by (simp add: set_uniqueOf)
    from sorted_objectKeysNat [OF this] show ?thesis
      by (simp add: rootKeys_def member_keys sorted_filter [where f = "\<lambda>x. x", simplified])
  qed
  have g: "(\<forall>r. ?roots = [r] \<longrightarrow>
                (\<exists>t. buildGedcomTree ps fams = Inr (Some t)
                     \<and> cleanNode (length ?m) ?m r = Some t
                     \<and> map_option n_name (map_of ?m r) = Some (t_name t)
                     \<and> map_option n_attributes (map_of ?m r) = Some (t_attributes t)))
            \<and> (2 \<le> length ?roots \<longrightarrow>
                (\<exists>ts. buildGedcomTree ps fams = Inr (Some (Node ''Ancestors'' [] ts))
                      \<and> map (cleanNode (length ?m) ?m) ?roots = map Some ts))"
    if ne: "ps \<noteq> []"
      and bd: "\<forall>k \<in> set ?ids. rank k < length (uniqueOf ?ids)"
      and rk: "\<forall>fam \<in> set fams. \<forall>c \<in> set (childIds fam). \<forall>p.
                 primaryParent fam = Some p \<and> p \<in> set ?ids \<and> c \<in> set ?ids \<longrightarrow> rank c < rank p"
  proof -
    have kn: "(map_of ?m k \<noteq> None) = (k \<in> set ?ids)" for k
      using known_iff [of ?m k] by (simp add: gedcom_keys set_uniqueOf del: set_map)
    have len: "length ?m = length (uniqueOf ?ids)"
      using arg_cong [OF gedcom_keys [of ps fams], of length] by simp
    have edges: "map_of ?m c \<noteq> None \<and> rank c < rank k"
      if nd: "map_of ?m k = Some nd" and c: "c \<in> set (n_children nd)" for k nd c
    proof -
      from nd kn [of k] have k: "k \<in> set ?ids" by simp
      from gedcom_children [of ps fams k] nd k
      have "n_children nd = concat (map (\<lambda>fam. if primaryParent fam = Some k
              then filter (\<lambda>c. c \<in> set ?ids) (childIds fam) else []) fams)"
        by (simp del: set_map)
      with c in_concat_if [of c "\<lambda>fam. primaryParent fam = Some k"
                "\<lambda>fam. filter (\<lambda>c. c \<in> set ?ids) (childIds fam)" fams]
      obtain fam where "fam \<in> set fams" "primaryParent fam = Some k"
        "c \<in> set (childIds fam)" "c \<in> set ?ids"
        by auto
      with rk k kn [of c] show ?thesis by blast
    qed
    have bound: "rank k < length ?m" if "map_of ?m k \<noteq> None" for k
      using that kn [of k] bd len by auto
    have roots: "map_of ?m r \<noteq> None" if "r \<in> set ?roots" for r
      using rootKeys_known [OF that] .
    from ne have b: "buildGedcomTree ps fams = finish ''Ancestors'' ?m ?roots"
      by (simp add: buildGedcomTree_def Let_def)
    from finish_ranked [of ?m rank ?roots "''Ancestors''", OF edges bound roots] b
    show ?thesis by simp
  qed
  have l: "(\<forall>r. ?nroots = [r] \<longrightarrow>
                (\<exists>t. buildFamilyTree ms rels = Inr (Some t)
                     \<and> cleanNode (length ?n) ?n r = Some t
                     \<and> map_option n_name (map_of ?n r) = Some (t_name t)
                     \<and> map_option n_attributes (map_of ?n r) = Some (t_attributes t)))
            \<and> (2 \<le> length ?nroots \<longrightarrow>
                (\<exists>ts. buildFamilyTree ms rels = Inr (Some (Node ''Family'' [] ts))
                      \<and> map (cleanNode (length ?n) ?n) ?nroots = map Some ts))"
    if ne: "ms \<noteq> []"
      and bd: "\<forall>k \<in> set ?mids. mrank k < length (uniqueOf ?mids)"
      and rk: "\<forall>rel \<in> set rels.
                 rel_kind rel = ''parent'' \<and> user_id rel \<in> set ?mids
                 \<and> related_user_id rel \<in> set ?mids
                 \<longrightarrow> mrank (related_user_id rel) < mrank (user_id rel)"
  proof -
    have kn: "(map_of ?n k \<noteq> None) = (k \<in> set ?mids)" for k
      using known_iff [of ?n k] by (simp add: member_keys set_uniqueOf del: set_map)
    have len: "length ?n = length (uniqueOf ?mids)"
      using arg_cong [OF member_keys [of ms rels], of length] by simp
    have edges: "map_of ?n c \<noteq> None \<and> mrank c < mrank k"
      if nd: "map_of ?n k = Some nd" and c: "c \<in> set (n_children nd)" for k nd c
    proof -
      from nd kn [of k] have k: "k \<in> set ?mids" by simp
      from member_children [of ms rels k] nd k
      have "n_children nd = concat (map (\<lambda>rel. if rel_kind rel = ''parent'' \<and> user_id rel = k
                                        \<and> related_user_id rel \<in> set ?mids
                                      then [related_user_id rel] else []) rels)"
        by (simp del: set_map)
      with c in_concat_if [of c "\<lambda>rel. rel_kind rel = ''parent'' \<and> user_id rel = k
                                        \<and> related_user_id rel \<in> set ?mids"
                "\<lambda>rel. [related_user_id rel]" rels]
      obtain rel where "rel \<in> set rels" "rel_kind rel = ''parent''" "user_id rel = k"
        "related_user_id rel = c" "c \<in> set ?mids"
        by auto
      with rk k kn [of c] show ?thesis by blast
    qed
    have bound: "mrank k < length ?n" if "map_of ?n k \<noteq> None" for k
      using that kn [of k] bd len by auto
    have roots: "map_of ?n r \<noteq> None" if "r \<in> set ?nroots" for r
      using rootKeys_known [OF that] .
    from ne have b: "buildFamilyTree ms rels = finish ''Family'' ?n ?nroots"
      by (simp add: buildFamilyTree_def Let_def)
    from finish_ranked [of ?n mrank ?nroots "''Family''", OF edges bound roots] b
    show ?thesis by simp
  qed
  show ?thesis
    unfolding Let_def using e go lo ls g l by blast
qed

theorem tree_builder_roots_witness:
  "xrefInput threePeople oneLine
   \<and> rootKeys (map fst (foldl familyStep (peopleMapOf threePeople) oneLine))
            (foldl familyStep (peopleMapOf threePeople) oneLine) = [''@I1@'']
   \<and> (\<exists>t. buildGedcomTree threePeople oneLine = Inr (Some t) \<and> t_name t = ''Adam'')
   \<and> 2 \<le> length (rootKeys (objectKeysNat (map fst (foldl relationStep (memberMapOf twoMembers) [])))
                         (foldl relationStep (memberMapOf twoMembers) []))
   \<and> (\<exists>ts. buildFamilyTree twoMembers [] = Inr (Some (Node ''Family'' [] ts)))"
proof -
  let ?m = "foldl familyStep (peopleMapOf threePeople) oneLine"
  let ?n = "foldl relationStep (memberMapOf twoMembers) []"
  have h0: "xrefInput threePeople oneLine" by code_simp
  have h1: "threePeople \<noteq> []" by (simp add: threePeople_def)
  have h2: "\<forall>k \<in> set (map p_gedcomId threePeople).
              generation k < length (uniqueOf (map p_gedcomId threePeople))"
    by (simp add: threePeople_def plainPerson_def generation_def)
  have h3: "\<forall>fam \<in> set oneLine. \<forall>c \<in> set (childIds fam). \<forall>p.
              primaryParent fam = Some p \<and> p \<in> set (map p_gedcomId threePeople)
              \<and> c \<in> set (map p_gedcomId threePeople) \<longrightarrow> generation c < generation p"
    by (simp add: oneLine_def family_def primaryParent_def orElse_def truthy_def generation_def)
  have h4: "rootKeys (map fst ?m) ?m = [''@I1@'']" by code_simp
  have h5: "map_option n_name (map_of ?m ''@I1@'') = Some ''Adam''" by code_simp
  have g1: "twoMembers \<noteq> []" by (simp add: twoMembers_def)
  have g2: "\<forall>k \<in> set (map m_id twoMembers). (0::nat) < length (uniqueOf (map m_id twoMembers))"
    by (simp add: twoMembers_def)
  have g3: "\<forall>rel \<in> set ([] :: relationship list).
              rel_kind rel = ''parent'' \<and> user_id rel \<in> set (map m_id twoMembers)
              \<and> related_user_id rel \<in> set (map m_id twoMembers) \<longrightarrow> (0::nat) < 0"
    by simp
  have g4: "rootKeys (objectKeysNat (map fst ?n)) ?n = [1, 2]"
    by (simp add: twoMembers_def memberMapOf_def memberNode_def objectKeysNat_def rootKeys_def)
  note T = tree_builder_roots [of oneLine "[]" threePeople generation twoMembers "\<lambda>k. 0",
                               unfolded Let_def]
  from T h0 h1 h2 h3 h4 have "\<exists>t. buildGedcomTree threePeople oneLine = Inr (Some t)
      \<and> map_option n_name (map_of ?m ''@I1@'') = Some (t_name t)"
    by blast
  with h5 have a: "\<exists>t. buildGedcomTree threePeople oneLine = Inr (Some t) \<and> t_name t = ''Adam''"
    by auto
  from g4 have g5: "2 \<le> length (rootKeys (objectKeysNat (map fst ?n)) ?n)" by simp
  from T g1 g2 g3 g5 have b: "\<exists>ts. buildFamilyTree twoMembers [] = Inr (Some (Node ''Family'' [] ts))"
    by blast
  from h0 h4 a g5 b show ?thesis by blast
qed

end
